theory Spec2Isabelle
  imports Main
begin

section \<open>Strings of the audio generator\<close>

text \<open>
  The service \<^verbatim>\<open>src/services/audioGenerator.ts\<close> works on JavaScript strings.  A string
  is modelled as a \<^typ>\<open>string\<close>, one \<^typ>\<open>char\<close> per code unit, which covers the code
  units U+0000 to U+00FF; \<^const>\<open>length\<close> is the \<^verbatim>\<open>.length\<close> of the source.
\<close>

text \<open>
  The class \<^verbatim>\<open>\s\<close> of a regular expression and the characters removed by
  \<^verbatim>\<open>String.prototype.trim\<close> are the same set: within U+0000..U+00FF these are tab,
  line feed, vertical tab, form feed, carriage return, space and the no-break space.
\<close>

definition isWhiteSpace :: "char \<Rightarrow> bool" where
  "isWhiteSpace c \<longleftrightarrow>
     c \<in> set [CHR 0x09, CHR 0x0A, CHR 0x0B, CHR 0x0C, CHR 0x0D, CHR 0x20, CHR 0xA0]"

definition trimStart :: "string \<Rightarrow> string" where
  "trimStart s = dropWhile isWhiteSpace s"

definition trimEnd :: "string \<Rightarrow> string" where
  "trimEnd s = rev (dropWhile isWhiteSpace (rev s))"

definition trim :: "string \<Rightarrow> string" where
  "trim s = trimEnd (trimStart s)"

text \<open>
  \<^verbatim>\<open>String.prototype.split\<close> with a regular expression that has no capture group and
  never matches the empty string.  The expression is given by \<open>matchAt prev rest\<close>: the
  length of its match at the current position, \<open>0\<close> when it does not match there;
  \<open>prev\<close> is the code unit before the position (what a lookbehind sees) and \<open>rest\<close>
  the string from the position on.  The search goes from left to right; a position
  without a match extends the current piece, a match closes the piece and the search
  resumes behind the match.
\<close>

function regexSplit :: "(char option \<Rightarrow> string \<Rightarrow> nat) \<Rightarrow> char option \<Rightarrow> string \<Rightarrow> string list" where
  "regexSplit matchAt prev [] = [[]]"
| "regexSplit matchAt prev (c # cs) =
     (if matchAt prev (c # cs) = 0
      then (case regexSplit matchAt (Some c) cs of
              [] \<Rightarrow> [[c]]
            | piece # pieces \<Rightarrow> (c # piece) # pieces)
      else [] # regexSplit matchAt
                  (Some (last (take (matchAt prev (c # cs)) (c # cs))))
                  (drop (matchAt prev (c # cs)) (c # cs)))"
  by pat_completeness auto
termination
  by (relation "measure (\<lambda>(matchAt, prev, s). length s)") auto

text \<open>\<^verbatim>\<open>/\n\n+/\<close>: two line feeds and every line feed that follows them.\<close>

definition paragraphBreak :: "char option \<Rightarrow> string \<Rightarrow> nat" where
  "paragraphBreak prev s =
     (if take 2 s = [CHR 0x0A, CHR 0x0A] then length (takeWhile (\<lambda>c. c = CHR 0x0A) s) else 0)"

text \<open>
  \<^verbatim>\<open>/(?<=[.!?])\s+/\<close>: a run of white space, as long as possible, right behind a full
  stop, an exclamation mark or a question mark.
\<close>

definition sentenceBreak :: "char option \<Rightarrow> string \<Rightarrow> nat" where
  "sentenceBreak prev s =
     (if prev = Some CHR ''.'' \<or> prev = Some CHR ''!'' \<or> prev = Some CHR ''?''
      then length (takeWhile isWhiteSpace s) else 0)"

definition splitParagraphs :: "string \<Rightarrow> string list" where
  "splitParagraphs text = regexSplit paragraphBreak None text"

definition splitSentences :: "string \<Rightarrow> string list" where
  "splitSentences paragraph = regexSplit sentenceBreak None paragraph"

section \<open>The text segmenter\<close>

definition MAX_CHARS_PER_REQUEST :: nat where
  "MAX_CHARS_PER_REQUEST = 4500"

text \<open>
  The state of the two loops of \<^verbatim>\<open>splitTextIntoChunks\<close> is the pair of the array
  \<^verbatim>\<open>chunks\<close> and the buffer \<^verbatim>\<open>currentChunk\<close>.  A string is truthy when it is not
  empty.  \<open>packSentence\<close> is one round of the inner loop over the sentences of a
  paragraph that is too long, \<open>packParagraph\<close> one round of the loop over the
  paragraphs.
\<close>

fun packSentence :: "string list \<times> string \<Rightarrow> string \<Rightarrow> string list \<times> string" where
  "packSentence (chunks, currentChunk) sentence =
     (if length currentChunk + length sentence + 1 > MAX_CHARS_PER_REQUEST
      then ((if currentChunk \<noteq> [] then chunks @ [trim currentChunk] else chunks), sentence)
      else (chunks, currentChunk @ (if currentChunk \<noteq> [] then '' '' else []) @ sentence))"

fun packParagraph :: "string list \<times> string \<Rightarrow> string \<Rightarrow> string list \<times> string" where
  "packParagraph (chunks, currentChunk) paragraph =
     (if length paragraph > MAX_CHARS_PER_REQUEST
      then foldl packSentence
             (if currentChunk \<noteq> [] then (chunks @ [trim currentChunk], []) else (chunks, currentChunk))
             (splitSentences paragraph)
      else let potentialChunk =
                 currentChunk @ (if currentChunk \<noteq> [] then [CHR 0x0A, CHR 0x0A] else []) @ paragraph
           in if length potentialChunk > MAX_CHARS_PER_REQUEST
              then (chunks @ [trim currentChunk], paragraph)
              else (chunks, potentialChunk))"

fun lastChunk :: "string list \<times> string \<Rightarrow> string list" where
  "lastChunk (chunks, currentChunk) =
     (if currentChunk \<noteq> [] then chunks @ [trim currentChunk] else chunks)"

definition splitTextIntoChunks :: "string \<Rightarrow> string list" where
  "splitTextIntoChunks text =
     (if length text \<le> MAX_CHARS_PER_REQUEST then [text]
      else lastChunk (foldl packParagraph ([], []) (splitParagraphs text)))"

text \<open>What a string holds besides white space, in order.\<close>

abbreviation nonWhiteSpace :: "string \<Rightarrow> string" where
  "nonWhiteSpace s \<equiv> filter (\<lambda>c. \<not> isWhiteSpace c) s"

text \<open>
  The text a state of the loops holds: the chunks pushed so far, then the buffer.
\<close>

fun chunkedText :: "string list \<times> string \<Rightarrow> string" where
  "chunkedText (chunks, currentChunk) = nonWhiteSpace (concat chunks) @ nonWhiteSpace currentChunk"



text \<open>
  The sentences of the sentence splitter, said without it.  A sentence break is a place
  where \<^verbatim>\<open>/(?<=[.!?])\s+/\<close> matches: a white-space character right behind a full
  stop, an exclamation mark or a question mark.  A string \<open>s\<close> is a whole sentence of a
  paragraph \<open>p\<close> when it holds no sentence break and lies in \<open>p\<close> between two ends:
  on the left the start of \<open>p\<close> or a sentence break (the closing mark, then the whole
  run of white space behind it), on the right the end of \<open>p\<close> or a sentence break
  (\<open>s\<close> ends with the closing mark and white space follows).
\<close>

definition isSentenceEnd :: "char \<Rightarrow> bool" where
  "isSentenceEnd c \<longleftrightarrow> c = CHR ''.'' \<or> c = CHR ''!'' \<or> c = CHR ''?''"

fun hasSentenceBreak :: "string \<Rightarrow> bool" where
  "hasSentenceBreak (a # b # cs) \<longleftrightarrow> (isSentenceEnd a \<and> isWhiteSpace b) \<or> hasSentenceBreak (b # cs)"
| "hasSentenceBreak [a] \<longleftrightarrow> False"
| "hasSentenceBreak [] \<longleftrightarrow> False"


text \<open>The code unit before a position, as a string of length 0 or 1.\<close>

definition lookbehind :: "char option \<Rightarrow> string" where
  "lookbehind prev = (case prev of None \<Rightarrow> [] | Some c \<Rightarrow> [c])"

section \<open>The file name of a chapter\<close>

text \<open>
  \<^verbatim>\<open>toLowerCase\<close> on the code units U+0000..U+00FF: the letters A to Z and the
  capital letters U+00C0..U+00DE (but not the multiplication sign U+00D7) move up
  by 32, every other code unit stays.
\<close>

definition asciiUpper :: string where
  "asciiUpper = ''ABCDEFGHIJKLMNOPQRSTUVWXYZ''"

definition asciiLower :: string where
  "asciiLower = ''abcdefghijklmnopqrstuvwxyz''"

definition latinUpper :: string where
  "latinUpper =
     [CHR 0xC0, CHR 0xC1, CHR 0xC2, CHR 0xC3, CHR 0xC4, CHR 0xC5, CHR 0xC6, CHR 0xC7,
      CHR 0xC8, CHR 0xC9, CHR 0xCA, CHR 0xCB, CHR 0xCC, CHR 0xCD, CHR 0xCE, CHR 0xCF,
      CHR 0xD0, CHR 0xD1, CHR 0xD2, CHR 0xD3, CHR 0xD4, CHR 0xD5, CHR 0xD6,
      CHR 0xD8, CHR 0xD9, CHR 0xDA, CHR 0xDB, CHR 0xDC, CHR 0xDD, CHR 0xDE]"

definition latinLower :: string where
  "latinLower =
     [CHR 0xE0, CHR 0xE1, CHR 0xE2, CHR 0xE3, CHR 0xE4, CHR 0xE5, CHR 0xE6, CHR 0xE7,
      CHR 0xE8, CHR 0xE9, CHR 0xEA, CHR 0xEB, CHR 0xEC, CHR 0xED, CHR 0xEE, CHR 0xEF,
      CHR 0xF0, CHR 0xF1, CHR 0xF2, CHR 0xF3, CHR 0xF4, CHR 0xF5, CHR 0xF6,
      CHR 0xF8, CHR 0xF9, CHR 0xFA, CHR 0xFB, CHR 0xFC, CHR 0xFD, CHR 0xFE]"

definition decimalDigits :: string where
  "decimalDigits = ''0123456789''"

definition toLowerCase :: "string \<Rightarrow> string" where
  "toLowerCase s =
     map (\<lambda>c. case map_of (zip (asciiUpper @ latinUpper) (asciiLower @ latinLower)) c of
                 None \<Rightarrow> c | Some l \<Rightarrow> l) s"

text \<open>The class \<^verbatim>\<open>[a-z0-9\s-]\<close>, whose complement the first replacement deletes.\<close>

definition isSlugChar :: "char \<Rightarrow> bool" where
  "isSlugChar c \<longleftrightarrow>
     c \<in> set asciiLower \<or> c \<in> set decimalDigits \<or> isWhiteSpace c \<or> c = CHR ''-''"

text \<open>
  \<^verbatim>\<open>replace(/X+/g, r)\<close> for a character class \<open>X\<close>: every run of characters of the
  class, taken as long as possible, becomes the one character \<open>r\<close>.
\<close>

function replaceRuns :: "(char \<Rightarrow> bool) \<Rightarrow> char \<Rightarrow> string \<Rightarrow> string" where
  "replaceRuns inClass r [] = []"
| "replaceRuns inClass r (c # cs) =
     (if inClass c then r # replaceRuns inClass r (dropWhile inClass cs)
      else c # replaceRuns inClass r cs)"
  by pat_completeness auto
termination
  by (relation "measure (\<lambda>(inClass, r, s). length s)")
     (auto simp: le_imp_less_Suc length_dropWhile_le)

text \<open>
  \<^verbatim>\<open>replace(/^-|-$/g, '')\<close>: a hyphen at the very start is deleted, and then a hyphen
  at the very end of what is left.
\<close>

definition stripEdgeHyphens :: "string \<Rightarrow> string" where
  "stripEdgeHyphens s =
     (let s1 = (if s \<noteq> [] \<and> hd s = CHR ''-'' then tl s else s)
      in if s1 \<noteq> [] \<and> last s1 = CHR ''-'' then butlast s1 else s1)"

definition createCleanFileName :: "string \<Rightarrow> string" where
  "createCleanFileName title =
     take 100
       (stripEdgeHyphens
         (replaceRuns (\<lambda>c. c = CHR ''-'') CHR ''-''
           (replaceRuns isWhiteSpace CHR ''-''
             (filter isSlugChar (toLowerCase title)))))"

section \<open>The world of a build\<close>

text \<open>
  A build talks to the file system, to the speech service and to the \<^verbatim>\<open>ffmpeg\<close>
  process.  The world holds the files (path to content) and the trace of what was
  done, oldest first: a request to the speech service with its text, a file written,
  a file deleted, a call of \<^verbatim>\<open>concatenateAudioFiles\<close> with its part files and its
  output file.
\<close>

datatype event =
    Synthesize string
  | WriteFile string
  | Unlink string
  | Concatenate "string list" string

record world =
  files :: "string \<rightharpoonup> string"
  trace :: "event list"

definition synthesized :: "event list \<Rightarrow> string list" where
  "synthesized es = concat (map (\<lambda>e. case e of Synthesize t \<Rightarrow> [t] | _ \<Rightarrow> []) es)"

definition written :: "event list \<Rightarrow> string list" where
  "written es = concat (map (\<lambda>e. case e of WriteFile p \<Rightarrow> [p] | _ \<Rightarrow> []) es)"

definition concatenations :: "event list \<Rightarrow> (string list \<times> string) list" where
  "concatenations es =
     concat (map (\<lambda>e. case e of Concatenate ps out \<Rightarrow> [(ps, out)] | _ \<Rightarrow> []) es)"

text \<open>The events of a run from the world \<open>w\<close> to the world \<open>w'\<close>.\<close>

definition eventsSince :: "world \<Rightarrow> world \<Rightarrow> event list" where
  "eventsSince w w' = drop (length (trace w)) (trace w')"

datatype error = Error string

text \<open>
  \<^verbatim>\<open>AudioFile\<close>; the optional \<^verbatim>\<open>duration\<close> is never set by the functions below.  The
  field \<^verbatim>\<open>size\<close> is \<open>fileSize\<close> here.
\<close>

record AudioFile =
  filePath :: string
  fileName :: string
  fileSize :: nat

text \<open>
  What the speech service answers to \<^verbatim>\<open>synthesizeSpeech\<close>: the promise is rejected
  with a message, or a response arrives whose \<^verbatim>\<open>audioContent\<close> is absent (\<open>None\<close>) or
  holds the audio.  Whatever else is thrown inside the \<^verbatim>\<open>try\<close> block of
  \<^verbatim>\<open>generateAudio\<close>, by \<^verbatim>\<open>writeFileSync\<close> or \<^verbatim>\<open>statSync\<close>, is caught by the same
  \<^verbatim>\<open>catch\<close> and thrown again with the same prefix: for the caller it is a rejection
  with that message, and \<open>TtsRejects\<close> stands for it as well (no file is then written).
  What the \<^verbatim>\<open>ffmpeg\<close> process does: it ends, having written the
  merged audio to the output file, or it fails with a message, having written nothing
  or some content to the output file.
\<close>

datatype ttsResponse = TtsRejects string | TtsResponds "string option"

datatype ffmpegOutcome = FfmpegEnd string | FfmpegError string "string option"

text \<open>
  The generator and what it is given.  \<open>outputDir\<close> is the field of the class.  The
  speech service sees the number of requests made before and the text; the \<^verbatim>\<open>ffmpeg\<close>
  process sees the files, the path of the concat list and the output path.  Both are
  arbitrary.  \<open>cleanContentForTTS\<close> stands for the method of that name: a chain of regular
  expression replacements on the chapter text, of which the build uses the result only;
  every statement below holds for every such function.  The voice options are passed on
  unchanged to every request and are left out, and so are the unused \<^verbatim>\<open>chapterId\<close> and
  the log lines.
\<close>

record env =
  outputDir :: string
  cleanContentForTTS :: "string \<Rightarrow> string \<Rightarrow> string"
  synthesizeSpeech :: "nat \<Rightarrow> string \<Rightarrow> ttsResponse"
  ffmpeg :: "(string \<rightharpoonup> string) \<Rightarrow> string \<Rightarrow> string \<Rightarrow> ffmpegOutcome"

text \<open>
  \<^verbatim>\<open>path.join\<close> of a directory and a file name without a slash: the directory, a slash
  and the name (the directory is taken as given, it is not normalised).
  \<^verbatim>\<open>path.basename\<close> is what follows the last slash.
\<close>

definition pathJoin :: "string \<Rightarrow> string \<Rightarrow> string" where
  "pathJoin dir name = dir @ ''/'' @ name"

definition basename :: "string \<Rightarrow> string" where
  "basename p = rev (takeWhile (\<lambda>c. c \<noteq> CHR ''/'') (rev p))"

definition writeFileSync :: "string \<Rightarrow> string \<Rightarrow> world \<Rightarrow> world" where
  "writeFileSync p content w =
     w\<lparr>files := (files w)(p \<mapsto> content), trace := trace w @ [WriteFile p]\<rparr>"

definition existsSync :: "string \<Rightarrow> world \<Rightarrow> bool" where
  "existsSync p w \<longleftrightarrow> files w p \<noteq> None"

text \<open>
  \<^verbatim>\<open>unlinkSync\<close> is called on a file that exists: on the concat list right after it
  was written, and elsewhere behind \<^verbatim>\<open>existsSync\<close>.
\<close>

definition unlinkSync :: "string \<Rightarrow> world \<Rightarrow> world" where
  "unlinkSync p w = w\<lparr>files := (files w)(p := None), trace := trace w @ [Unlink p]\<rparr>"

definition statSync :: "string \<Rightarrow> world \<Rightarrow> error + nat" where
  "statSync p w =
     (case files w p of
        None \<Rightarrow> Inl (Error (''ENOENT: no such file or directory, stat '' @ [CHR 0x27] @ p @ [CHR 0x27]))
      | Some content \<Rightarrow> Inr (length content))"

text \<open>A number in a template literal: its decimal digits.\<close>

fun showNat :: "nat \<Rightarrow> string" where
  "showNat n =
     (if n < 10 then [''0123456789'' ! n] else showNat (n div 10) @ [''0123456789'' ! (n mod 10)])"

declare showNat.simps [simp del]

text \<open>\<^verbatim>\<open>Array.prototype.join\<close>.\<close>

fun joinWith :: "string \<Rightarrow> string list \<Rightarrow> string" where
  "joinWith sep [] = []"
| "joinWith sep [x] = x"
| "joinWith sep (x # y # ys) = x @ sep @ joinWith sep (y # ys)"

section \<open>The build\<close>

text \<open>
  \<^verbatim>\<open>generateAudio\<close>: one request to the speech service.  Whatever is thrown inside the
  \<^verbatim>\<open>try\<close> block is thrown again with the prefix \<^verbatim>\<open>TTS generation failed: \<close>.
\<close>

definition generateAudio :: "env \<Rightarrow> string \<Rightarrow> string \<Rightarrow> world \<Rightarrow> (error + AudioFile) \<times> world" where
  "generateAudio env text fileName' w =
     (let w1 = w\<lparr>trace := trace w @ [Synthesize text]\<rparr> in
      case synthesizeSpeech env (length (synthesized (trace w))) text of
        TtsRejects msg \<Rightarrow> (Inl (Error (''TTS generation failed: '' @ msg)), w1)
      | TtsResponds None \<Rightarrow>
          (Inl (Error (''TTS generation failed: '' @ ''No audio content received from TTS service'')), w1)
      | TtsResponds (Some audioContent) \<Rightarrow>
          (let filePath' = pathJoin (outputDir env) (fileName' @ ''.mp3'');
               w2 = writeFileSync filePath' audioContent w1
           in case statSync filePath' w2 of
                Inl (Error msg) \<Rightarrow> (Inl (Error (''TTS generation failed: '' @ msg)), w2)
              | Inr sz \<Rightarrow>
                  (Inr \<lparr>filePath = filePath', fileName = fileName' @ ''.mp3'', fileSize = sz\<rparr>, w2)))"

text \<open>
  \<^verbatim>\<open>concatenateAudioFiles\<close>: the concat list is written, the \<^verbatim>\<open>ffmpeg\<close> process runs,
  and one of the two handlers cleans up.
\<close>

definition concatListPath :: "env \<Rightarrow> string" where
  "concatListPath env = pathJoin (outputDir env) ''.concat-list.txt''"

text \<open>The content of the concat list: one line \<^verbatim>\<open>file '<base name>'\<close> per part file.\<close>

definition concatList :: "string list \<Rightarrow> string" where
  "concatList partFiles =
     joinWith [CHR 0x0A] (map (\<lambda>f. ''file '' @ [CHR 0x27] @ basename f @ [CHR 0x27]) partFiles)"

text \<open>The body of the \<^verbatim>\<open>forEach\<close> over the part files.\<close>

definition unlinkIfExists :: "world \<Rightarrow> string \<Rightarrow> world" where
  "unlinkIfExists w f = (if existsSync f w then unlinkSync f w else w)"

definition concatenateAudioFiles :: "env \<Rightarrow> string list \<Rightarrow> string \<Rightarrow> world \<Rightarrow> (error + unit) \<times> world" where
  "concatenateAudioFiles env partFiles outputFile w =
     (let w1 = writeFileSync (concatListPath env) (concatList partFiles)
                 (w\<lparr>trace := trace w @ [Concatenate partFiles outputFile]\<rparr>)
      in case ffmpeg env (files w1) (concatListPath env) outputFile of
           FfmpegEnd merged \<Rightarrow>
             (let w2 = writeFileSync outputFile merged w1;
                  w3 = unlinkSync (concatListPath env) w2;
                  w4 = foldl unlinkIfExists w3 partFiles
              in (Inr (), w4))
         | FfmpegError msg partial \<Rightarrow>
             (let w2 = (case partial of None \<Rightarrow> w1 | Some content \<Rightarrow> writeFileSync outputFile content w1);
                  w3 = (if existsSync (concatListPath env) w2 then unlinkSync (concatListPath env) w2 else w2)
              in (Inl (Error (''FFmpeg concatenation failed: '' @ msg)), w3)))"

text \<open>
  The loop of \<^verbatim>\<open>generateChapterAudioWithChunking\<close> over the chunks, from the index
  \<open>i\<close> on, with the array \<^verbatim>\<open>partFiles\<close> built so far.  An error of \<^verbatim>\<open>generateAudio\<close>
  leaves the loop and the function.
\<close>

definition partFileName :: "string \<Rightarrow> nat \<Rightarrow> string" where
  "partFileName cleanFileName i = cleanFileName @ ''-part'' @ showNat (i + 1)"

function generateParts ::
  "env \<Rightarrow> string \<Rightarrow> string list \<Rightarrow> nat \<Rightarrow> string list \<Rightarrow> world \<Rightarrow> (error + string list) \<times> world" where
  "generateParts env cleanFileName chunks i partFiles w =
     (if i < length chunks
      then (case generateAudio env (chunks ! i) (partFileName cleanFileName i) w of
              (Inl e, w') \<Rightarrow> (Inl e, w')
            | (Inr partFile, w') \<Rightarrow>
                generateParts env cleanFileName chunks (i + 1) (partFiles @ [filePath partFile]) w')
      else (Inr partFiles, w))"
  by pat_completeness auto
termination
  by (relation "measure (\<lambda>(env, cleanFileName, chunks, i, partFiles, w). length chunks - i)") auto

declare generateParts.simps [simp del]

definition generateChapterAudioWithChunking ::
  "env \<Rightarrow> string \<Rightarrow> string \<Rightarrow> world \<Rightarrow> (error + AudioFile) \<times> world" where
  "generateChapterAudioWithChunking env chapterTitle chapterContent w =
     (let cleanFileName = createCleanFileName chapterTitle;
          cleanedContent = cleanContentForTTS env chapterTitle chapterContent
      in if length cleanedContent \<le> MAX_CHARS_PER_REQUEST
         then generateAudio env cleanedContent cleanFileName w
         else
           (let chunks = splitTextIntoChunks cleanedContent in
            case generateParts env cleanFileName chunks 0 [] w of
              (Inl e, w1) \<Rightarrow> (Inl e, w1)
            | (Inr partFiles, w1) \<Rightarrow>
                (let finalFilePath = pathJoin (outputDir env) (cleanFileName @ ''.mp3'') in
                 case concatenateAudioFiles env partFiles finalFilePath w1 of
                   (Inl e, w2) \<Rightarrow> (Inl e, w2)
                 | (Inr u, w2) \<Rightarrow>
                     (case statSync finalFilePath w2 of
                        Inl e \<Rightarrow> (Inl e, w2)
                      | Inr sz \<Rightarrow>
                          (Inr \<lparr>filePath = finalFilePath, fileName = cleanFileName @ ''.mp3'',
                                fileSize = sz\<rparr>, w2)))))"


text \<open>
  The paths of a build: of the part file of the chunk \<open>i\<close> (counted from 0) and of the
  final file.
\<close>

definition partFilePath :: "env \<Rightarrow> string \<Rightarrow> nat \<Rightarrow> string" where
  "partFilePath env cleanFileName i = pathJoin (outputDir env) (partFileName cleanFileName i @ ''.mp3'')"

definition finalFilePath :: "env \<Rightarrow> string \<Rightarrow> string" where
  "finalFilePath env cleanFileName = pathJoin (outputDir env) (cleanFileName @ ''.mp3'')"

text \<open>
  An answer of the speech service makes \<^verbatim>\<open>generateAudio\<close> succeed when it holds audio;
  otherwise \<open>ttsFailure\<close> is the message \<^verbatim>\<open>generateAudio\<close> wraps.
\<close>

fun ttsOk :: "ttsResponse \<Rightarrow> bool" where
  "ttsOk (TtsResponds (Some audioContent)) = True"
| "ttsOk (TtsResponds None) = False"
| "ttsOk (TtsRejects msg) = False"

fun ttsFailure :: "ttsResponse \<Rightarrow> string" where
  "ttsFailure (TtsRejects msg) = msg"
| "ttsFailure (TtsResponds None) = ''No audio content received from TTS service''"
| "ttsFailure (TtsResponds (Some audioContent)) = []"

text \<open>
  The answer to the request for the chunk \<open>j\<close>, in a build that starts after \<open>k\<close>
  earlier requests, and the events of a chunk whose synthesis succeeds.
\<close>

definition responseAt :: "env \<Rightarrow> nat \<Rightarrow> string list \<Rightarrow> nat \<Rightarrow> ttsResponse" where
  "responseAt env k chunks j = synthesizeSpeech env (k + j) (chunks ! j)"

definition partEvents :: "env \<Rightarrow> string \<Rightarrow> string list \<Rightarrow> nat \<Rightarrow> event list" where
  "partEvents env cleanFileName chunks j =
     [Synthesize (chunks ! j), WriteFile (partFilePath env cleanFileName j)]"

section \<open>Scripted surroundings\<close>

text \<open>
  Concrete inputs for the examples: a text of two paragraphs of 4500 characters each, a
  speech service that answers by the number of the request (\<open>quotaAt i\<close> rejects the
  request number \<open>i\<close> and answers every other one with audio), an \<^verbatim>\<open>ffmpeg\<close> with a
  fixed outcome, a cleaner that leaves the content as it is, and the world with no file.
\<close>

definition twoParagraphs :: string where
  "twoParagraphs = replicate 4500 CHR ''a'' @ [CHR 0x0A, CHR 0x0A] @ replicate 4500 CHR ''b''"

definition quotaAt :: "nat \<Rightarrow> nat \<Rightarrow> ttsResponse" where
  "quotaAt i k = (if k = i then TtsRejects ''quota exceeded'' else TtsResponds (Some ''mp3''))"

definition scriptedEnv :: "(nat \<Rightarrow> ttsResponse) \<Rightarrow> ffmpegOutcome \<Rightarrow> env" where
  "scriptedEnv tts merge =
     \<lparr>outputDir = ''./audio'', cleanContentForTTS = (\<lambda>title content. content),
      synthesizeSpeech = (\<lambda>k text. tts k), ffmpeg = (\<lambda>fs list out. merge)\<rparr>"

definition emptyWorld :: world where
  "emptyWorld = \<lparr>files = Map.empty, trace = []\<rparr>"

section \<open>Properties of the strings\<close>


lemma filter_dropWhile_disjoint:
  "(\<And>x. Q x \<Longrightarrow> \<not> P x) \<Longrightarrow> filter P (dropWhile Q s) = filter P s"
  by (induction s) auto

lemma nonWhiteSpace_trimStart: "nonWhiteSpace (trimStart s) = nonWhiteSpace s"
  unfolding trimStart_def by (rule filter_dropWhile_disjoint) simp

lemma nonWhiteSpace_trimEnd: "nonWhiteSpace (trimEnd s) = nonWhiteSpace s"
proof -
  have "nonWhiteSpace (trimEnd s) = rev (nonWhiteSpace (dropWhile isWhiteSpace (rev s)))"
    by (simp add: trimEnd_def rev_filter)
  also have "\<dots> = rev (nonWhiteSpace (rev s))"
    by (simp add: filter_dropWhile_disjoint)
  also have "\<dots> = nonWhiteSpace s"
    by (simp add: rev_filter)
  finally show ?thesis .
qed

lemma nonWhiteSpace_trim: "nonWhiteSpace (trim s) = nonWhiteSpace s"
  by (simp add: trim_def nonWhiteSpace_trimEnd nonWhiteSpace_trimStart)


lemma regexSplit_not_Nil: "regexSplit m prev s \<noteq> []"
  by (induction m prev s rule: regexSplit.induct) (auto split: list.splits)

lemma nonWhiteSpace_regexSplit:
  assumes ws: "\<And>prev s x. x \<in> set (take (m prev s) s) \<Longrightarrow> isWhiteSpace x"
  shows "nonWhiteSpace (concat (regexSplit m prev s)) = nonWhiteSpace s"
  using ws
proof (induction m prev s rule: regexSplit.induct)
  case (1 matchAt prev)
  show ?case by simp
next
  case (2 matchAt prev c cs)
  let ?n = "matchAt prev (c # cs)"
  show ?case
  proof (cases "?n = 0")
    case True
    have "nonWhiteSpace (concat (regexSplit matchAt (Some c) cs)) = nonWhiteSpace cs"
      using 2(1) [OF True] 2(3) by blast
    with True show ?thesis
      by (auto split: list.splits simp: regexSplit_not_Nil)
  next
    case False
    have skipped: "nonWhiteSpace (take ?n (c # cs)) = []"
      using 2(3) [of _ prev "c # cs"] by (auto simp: filter_empty_conv)
    have "nonWhiteSpace (concat (regexSplit matchAt (Some (last (take ?n (c # cs)))) (drop ?n (c # cs))))
            = nonWhiteSpace (drop ?n (c # cs))"
      using 2(2) [OF False] 2(3) by blast
    moreover have "nonWhiteSpace (c # cs) = nonWhiteSpace (take ?n (c # cs)) @ nonWhiteSpace (drop ?n (c # cs))"
      by (metis append_take_drop_id filter_append)
    ultimately show ?thesis
      using False skipped by simp
  qed
qed

lemma paragraphBreak_white:
  "x \<in> set (take (paragraphBreak prev s) s) \<Longrightarrow> isWhiteSpace x"
proof -
  assume "x \<in> set (take (paragraphBreak prev s) s)"
  then have "x \<in> set (takeWhile (\<lambda>c. c = CHR 0x0A) s)"
    by (simp add: paragraphBreak_def takeWhile_eq_take [symmetric] split: if_splits)
  then have "x = CHR 0x0A"
    by (auto dest: set_takeWhileD)
  then show ?thesis
    by (simp add: isWhiteSpace_def)
qed

lemma sentenceBreak_white:
  "x \<in> set (take (sentenceBreak prev s) s) \<Longrightarrow> isWhiteSpace x"
proof -
  assume "x \<in> set (take (sentenceBreak prev s) s)"
  then have "x \<in> set (takeWhile isWhiteSpace s)"
    by (simp add: sentenceBreak_def takeWhile_eq_take [symmetric] split: if_splits)
  then show ?thesis
    by (auto dest: set_takeWhileD)
qed

lemma nonWhiteSpace_splitParagraphs:
  "nonWhiteSpace (concat (splitParagraphs text)) = nonWhiteSpace text"
  unfolding splitParagraphs_def by (rule nonWhiteSpace_regexSplit) (rule paragraphBreak_white)

lemma nonWhiteSpace_splitSentences:
  "nonWhiteSpace (concat (splitSentences p)) = nonWhiteSpace p"
  unfolding splitSentences_def by (rule nonWhiteSpace_regexSplit) (rule sentenceBreak_white)

lemma isWhiteSpace_space [simp]: "isWhiteSpace CHR '' ''"
  by (simp add: isWhiteSpace_def)

lemma isWhiteSpace_newline [simp]: "isWhiteSpace (CHR 0x0A)"
  by (simp add: isWhiteSpace_def)


lemma chunkedText_packSentence:
  "chunkedText (packSentence st s) = chunkedText st @ nonWhiteSpace s"
  by (cases st) (simp add: nonWhiteSpace_trim)

lemma chunkedText_sentences:
  "chunkedText (foldl packSentence st ss) = chunkedText st @ nonWhiteSpace (concat ss)"
  by (induction ss arbitrary: st) (simp_all add: chunkedText_packSentence)

lemma chunkedText_packParagraph:
  "chunkedText (packParagraph st p) = chunkedText st @ nonWhiteSpace p"
  by (cases st)
     (simp add: chunkedText_sentences nonWhiteSpace_splitSentences nonWhiteSpace_trim Let_def)

lemma chunkedText_paragraphs:
  "chunkedText (foldl packParagraph st ps) = chunkedText st @ nonWhiteSpace (concat ps)"
  by (induction ps arbitrary: st) (simp_all add: chunkedText_packParagraph)

lemma nonWhiteSpace_lastChunk:
  "nonWhiteSpace (concat (lastChunk st)) = chunkedText st"
  by (cases st) (simp add: nonWhiteSpace_trim)

subsection \<open>The size invariant of the loops\<close>







subsection \<open>Splitting and trimming plain strings\<close>

lemma paragraphBreak_no_match:
  "x \<noteq> CHR 0x0A \<Longrightarrow> paragraphBreak prev (x # xs) = 0"
  by (simp add: paragraphBreak_def)

lemma regexSplit_paragraph_plain:
  "CHR 0x0A \<notin> set xs \<Longrightarrow> regexSplit paragraphBreak prev xs = [xs]"
  by (induction xs arbitrary: prev) (auto simp: paragraphBreak_no_match)

lemma regexSplit_paragraph_break:
  "CHR 0x0A \<notin> set xs \<Longrightarrow> ys = [] \<or> hd ys \<noteq> CHR 0x0A \<Longrightarrow>
   regexSplit paragraphBreak prev (xs @ CHR 0x0A # CHR 0x0A # ys) =
     xs # regexSplit paragraphBreak (Some (CHR 0x0A)) ys"
proof (induction xs arbitrary: prev)
  case Nil
  have "takeWhile (\<lambda>c. c = CHR 0x0A) ys = []"
    using Nil(2) by (cases ys) auto
  then show ?case
    by (simp add: paragraphBreak_def)
next
  case (Cons x xs)
  then show ?case
    by (auto simp: paragraphBreak_no_match)
qed

lemma regexSplit_sentence_plain:
  "CHR ''.'' \<notin> set xs \<Longrightarrow> CHR ''!'' \<notin> set xs \<Longrightarrow> CHR ''?'' \<notin> set xs \<Longrightarrow>
   prev \<notin> {Some CHR ''.'', Some CHR ''!'', Some CHR ''?''} \<Longrightarrow>
   regexSplit sentenceBreak prev xs = [xs]"
  by (induction xs arbitrary: prev) (auto simp: sentenceBreak_def)

lemma trim_plain:
  "s \<noteq> [] \<Longrightarrow> \<not> isWhiteSpace (hd s) \<Longrightarrow> \<not> isWhiteSpace (last s) \<Longrightarrow> trim s = s"
proof -
  assume s: "s \<noteq> []" "\<not> isWhiteSpace (hd s)" "\<not> isWhiteSpace (last s)"
  then have "trimStart s = s"
    by (cases s) (simp_all add: trimStart_def)
  moreover have "trimEnd s = s"
    using s by (cases "rev s") (auto simp: trimEnd_def last_rev hd_rev)
  ultimately show ?thesis
    by (simp add: trim_def)
qed

lemma trim_blank: "trim '' '' = []"
  by (simp add: trim_def trimStart_def trimEnd_def)

lemma splitParagraphs_blank_between:
  "splitParagraphs (replicate 4500 CHR ''a'' @ [CHR 0x0A, CHR 0x0A, CHR '' '', CHR 0x0A, CHR 0x0A]
                      @ replicate 4500 CHR ''b'')
   = [replicate 4500 CHR ''a'', '' '', replicate 4500 CHR ''b'']"
proof -
  let ?A = "replicate 4500 CHR ''a''" and ?B = "replicate 4500 CHR ''b''"
  have "regexSplit paragraphBreak None (?A @ CHR 0x0A # CHR 0x0A # ('' '' @ CHR 0x0A # CHR 0x0A # ?B))
          = ?A # regexSplit paragraphBreak (Some (CHR 0x0A)) ('' '' @ CHR 0x0A # CHR 0x0A # ?B)"
    by (rule regexSplit_paragraph_break) simp_all
  moreover have "regexSplit paragraphBreak (Some (CHR 0x0A)) ('' '' @ CHR 0x0A # CHR 0x0A # ?B)
          = '' '' # regexSplit paragraphBreak (Some (CHR 0x0A)) ?B"
    by (rule regexSplit_paragraph_break) simp_all
  moreover have "regexSplit paragraphBreak (Some (CHR 0x0A)) ?B = [?B]"
    by (rule regexSplit_paragraph_plain) simp
  ultimately show ?thesis
    by (simp add: splitParagraphs_def)
qed

subsection \<open>Whole sentences\<close>






lemma lookbehind_no_break [simp]: "\<not> hasSentenceBreak (lookbehind prev)"
  by (cases prev) (simp_all add: lookbehind_def)










section \<open>Properties of the text segmenter\<close>

text \<open>
  C1: for every input text, the segments of \<^verbatim>\<open>splitTextIntoChunks\<close>, put one after the
  other, hold the same characters other than white space as the input, in the same
  order: none is lost and none appears twice.
\<close>

theorem segments_keep_content:
  "nonWhiteSpace (concat (splitTextIntoChunks text)) = nonWhiteSpace text"
  by (simp add: splitTextIntoChunks_def nonWhiteSpace_lastChunk chunkedText_paragraphs
        nonWhiteSpace_splitParagraphs)

theorem segments_keep_content_witness:
  "nonWhiteSpace (concat (splitTextIntoChunks ''Hello. World'')) = ''Hello.World''"
  using segments_keep_content [of "''Hello. World''"] by (simp add: isWhiteSpace_def)

text \<open>
  C3, as the code has it: for every input text of at most 4500 characters
  \<^verbatim>\<open>splitTextIntoChunks\<close> returns exactly one segment, the input itself, unchanged.
  The early return does not trim.
\<close>

theorem short_text_one_segment:
  "length text \<le> MAX_CHARS_PER_REQUEST \<Longrightarrow> splitTextIntoChunks text = [text]"
  by (simp add: splitTextIntoChunks_def)

theorem short_text_one_segment_witness:
  "length '' a'' \<le> MAX_CHARS_PER_REQUEST \<and> splitTextIntoChunks '' a'' = ['' a'']"
  using short_text_one_segment [of "'' a''"] by (simp add: MAX_CHARS_PER_REQUEST_def)

text \<open>
  The input \<open>'' a''\<close> is short, and its one segment keeps the leading space that
  trimming would remove.
\<close>

theorem short_text_not_trimmed:
  "length '' a'' \<le> MAX_CHARS_PER_REQUEST \<and> trim '' a'' = ''a'' \<and>
   splitTextIntoChunks '' a'' \<noteq> [trim '' a'']"
  by (simp add: splitTextIntoChunks_def MAX_CHARS_PER_REQUEST_def trim_def trimStart_def
        trimEnd_def isWhiteSpace_def)



text \<open>
  C8: for every input text that is not empty, every segment of \<^verbatim>\<open>splitTextIntoChunks\<close>
  should be non-empty after trimming.  The code returns an empty segment on this input,
  which is trimmed and not empty: two paragraphs of 4500 characters with a paragraph
  between them that is a single space.  The buffer holding the space is not the empty
  string, so the check before the push lets it through, and the segment pushed is its
  trimmed value, the empty string.
\<close>

theorem blank_paragraph_gives_empty_segment:
  "splitTextIntoChunks (replicate 4500 CHR ''a'' @ [CHR 0x0A, CHR 0x0A, CHR '' '', CHR 0x0A, CHR 0x0A]
                          @ replicate 4500 CHR ''b'')
   = [replicate 4500 CHR ''a'', [], replicate 4500 CHR ''b'']"
proof -
  have a: "trim (replicate 4500 CHR ''a'') = replicate 4500 CHR ''a''"
    by (rule trim_plain) (simp_all add: isWhiteSpace_def)
  have b: "trim (replicate 4500 CHR ''b'') = replicate 4500 CHR ''b''"
    by (rule trim_plain) (simp_all add: isWhiteSpace_def)
  show ?thesis
    unfolding splitTextIntoChunks_def splitParagraphs_blank_between
    by (simp add: MAX_CHARS_PER_REQUEST_def a b trim_blank)
qed

section \<open>Properties of the file name\<close>

text \<open>
  What holds of \<^verbatim>\<open>createCleanFileName\<close> for every title: the name consists of the
  letters a to z, digits and hyphens, has at most 100 characters and does not start
  with a hyphen; it is empty for a title without a letter or digit; and it does not
  end with a hyphen when the title has at most 100 characters.
\<close>

lemma set_replaceRuns: "set (replaceRuns P r s) \<subseteq> insert r {c \<in> set s. \<not> P c}"
proof (induction P r s rule: replaceRuns.induct)
  case (1 inClass r)
  show ?case by simp
next
  case (2 inClass r c cs)
  show ?case
  proof (cases "inClass c")
    case True
    with 2 show ?thesis
      by (auto dest: set_dropWhileD)
  next
    case False
    with 2 show ?thesis by auto
  qed
qed

lemma length_replaceRuns: "length (replaceRuns P r s) \<le> length s"
proof (induction P r s rule: replaceRuns.induct)
  case (1 inClass r)
  show ?case by simp
next
  case (2 inClass r c cs)
  show ?case
  proof (cases "inClass c")
    case True
    with 2 have "length (replaceRuns inClass r (dropWhile inClass cs)) \<le> length cs"
      using length_dropWhile_le [of inClass cs] by (meson le_trans)
    with True show ?thesis by simp
  next
    case False
    with 2 show ?thesis by simp
  qed
qed

lemma replaceRuns_head:
  "replaceRuns P r s = [] \<or> hd (replaceRuns P r s) = (if P (hd s) then r else hd s)"
  by (cases s) simp_all

lemma replaceRuns_Nil: "replaceRuns P r s = [] \<longleftrightarrow> s = []"
  by (cases s) simp_all

lemma successively_replaceRuns:
  "P r \<Longrightarrow> successively (\<lambda>a b. \<not> (P a \<and> P b)) (replaceRuns P r s)"
proof (induction P r s rule: replaceRuns.induct)
  case (1 inClass r)
  show ?case by simp
next
  case (2 inClass r c cs)
  show ?case
  proof (cases "inClass c")
    case True
    let ?ds = "dropWhile inClass cs"
    have "?ds = [] \<or> \<not> inClass (hd ?ds)"
      by (metis hd_dropWhile)
    then have "replaceRuns inClass r ?ds = [] \<or> \<not> inClass (hd (replaceRuns inClass r ?ds))"
      using replaceRuns_head [of inClass r ?ds] by (auto simp: replaceRuns_Nil)
    with True 2 show ?thesis
      by (auto simp: successively_Cons)
  next
    case False
    with 2 show ?thesis
      by (auto simp: successively_Cons)
  qed
qed

lemma replaceRuns_all_in_class:
  "\<forall>c\<in>set s. P c \<Longrightarrow> replaceRuns P r s = (if s = [] then [] else [r])"
proof (cases s)
  case Nil
  then show ?thesis by simp
next
  case (Cons c cs)
  assume "\<forall>c\<in>set s. P c"
  with Cons have c: "P c" and d: "dropWhile P cs = []"
    by (simp_all add: dropWhile_eq_Nil_conv)
  show ?thesis
    unfolding Cons by (simp add: c d del: dropWhile_eq_Nil_conv)
qed

lemma successively_last_two:
  "successively Q (xs @ [a, b]) \<Longrightarrow> Q a b"
  by (induction xs) (auto simp: successively_Cons)

lemma stripEdgeHyphens_ends:
  assumes "successively (\<lambda>a b. \<not> (a = CHR ''-'' \<and> b = CHR ''-'')) s"
  shows "stripEdgeHyphens s = [] \<or>
           (hd (stripEdgeHyphens s) \<noteq> CHR ''-'' \<and> last (stripEdgeHyphens s) \<noteq> CHR ''-'')"
proof -
  let ?Q = "\<lambda>a b. \<not> (a = CHR ''-'' \<and> b = CHR ''-'')"
  define s1 where "s1 = (if s \<noteq> [] \<and> hd s = CHR ''-'' then tl s else s)"
  have q1: "successively ?Q s1"
    using assms unfolding s1_def by (cases s) (auto simp: successively_Cons)
  have h1: "s1 = [] \<or> hd s1 \<noteq> CHR ''-''"
    using assms unfolding s1_def by (cases s) (auto simp: successively_Cons)
  have res: "stripEdgeHyphens s = (if s1 \<noteq> [] \<and> last s1 = CHR ''-'' then butlast s1 else s1)"
    by (simp add: stripEdgeHyphens_def s1_def Let_def)
  show ?thesis
  proof (cases "s1 \<noteq> [] \<and> last s1 = CHR ''-''")
    case False
    with res h1 show ?thesis by auto
  next
    case True
    show ?thesis
    proof (cases "butlast s1 = []")
      case True
      with res \<open>s1 \<noteq> [] \<and> last s1 = CHR ''-''\<close> show ?thesis by simp
    next
      case False
      then obtain ys x where ys: "butlast s1 = ys @ [x]"
        by (metis append_butlast_last_id)
      with True have s1: "s1 = ys @ [x, CHR ''-'']"
        by (metis append.assoc append_Cons append_Nil append_butlast_last_id)
      with q1 have "x \<noteq> CHR ''-''"
        using successively_last_two [of ?Q ys x "CHR ''-''"] by auto
      moreover have "hd (butlast s1) = hd s1"
        using s1 ys by (cases ys) auto
      ultimately show ?thesis
        using res True h1 ys by auto
    qed
  qed
qed

lemma length_stripEdgeHyphens: "length (stripEdgeHyphens s) \<le> length s"
  by (auto simp: stripEdgeHyphens_def Let_def)

lemma set_stripEdgeHyphens: "set (stripEdgeHyphens s) \<subseteq> set s"
  by (auto simp: stripEdgeHyphens_def Let_def dest: list.set_sel(2) in_set_butlastD)

lemma createCleanFileName_characters:
  "set (createCleanFileName title) \<subseteq> set asciiLower \<union> set decimalDigits \<union> {CHR ''-''}"
proof
  fix c
  assume "c \<in> set (createCleanFileName title)"
  then have "c \<in> set (replaceRuns (\<lambda>c. c = CHR ''-'') CHR ''-''
           (replaceRuns isWhiteSpace CHR ''-'' (filter isSlugChar (toLowerCase title))))"
    unfolding createCleanFileName_def using set_stripEdgeHyphens by (blast dest: in_set_takeD)
  then have "c = CHR ''-'' \<or>
      c \<in> set (replaceRuns isWhiteSpace CHR ''-'' (filter isSlugChar (toLowerCase title)))"
    using set_replaceRuns by fastforce
  then have "c = CHR ''-'' \<or> (isSlugChar c \<and> \<not> isWhiteSpace c)"
    using set_replaceRuns [of isWhiteSpace "CHR ''-''" "filter isSlugChar (toLowerCase title)"]
    by auto
  then show "c \<in> set asciiLower \<union> set decimalDigits \<union> {CHR ''-''}"
    unfolding isSlugChar_def by auto
qed

lemma createCleanFileName_length: "length (createCleanFileName title) \<le> 100"
  by (simp add: createCleanFileName_def)

lemma createCleanFileName_leading:
  "createCleanFileName title = [] \<or> hd (createCleanFileName title) \<noteq> CHR ''-''"
proof -
  let ?s3 = "replaceRuns (\<lambda>c. c = CHR ''-'') CHR ''-''
           (replaceRuns isWhiteSpace CHR ''-'' (filter isSlugChar (toLowerCase title)))"
  have "successively (\<lambda>a b. \<not> (a = CHR ''-'' \<and> b = CHR ''-'')) ?s3"
    by (rule successively_replaceRuns) simp
  then have "stripEdgeHyphens ?s3 = [] \<or> hd (stripEdgeHyphens ?s3) \<noteq> CHR ''-''"
    using stripEdgeHyphens_ends by blast
  then show ?thesis
    unfolding createCleanFileName_def by (cases "stripEdgeHyphens ?s3") auto
qed

lemma createCleanFileName_trailing:
  assumes "length title \<le> 100"
  shows "createCleanFileName title = [] \<or> last (createCleanFileName title) \<noteq> CHR ''-''"
proof -
  let ?s2 = "replaceRuns isWhiteSpace CHR ''-'' (filter isSlugChar (toLowerCase title))"
  let ?s3 = "replaceRuns (\<lambda>c. c = CHR ''-'') CHR ''-'' ?s2"
  have "length (stripEdgeHyphens ?s3) \<le> length ?s3"
    by (rule length_stripEdgeHyphens)
  also have "\<dots> \<le> length ?s2"
    by (rule length_replaceRuns)
  also have "\<dots> \<le> length (filter isSlugChar (toLowerCase title))"
    by (rule length_replaceRuns)
  also have "\<dots> \<le> length title"
    using length_filter_le [of isSlugChar "toLowerCase title"] by (simp add: toLowerCase_def)
  finally have "createCleanFileName title = stripEdgeHyphens ?s3"
    using assms by (simp add: createCleanFileName_def)
  moreover have "successively (\<lambda>a b. \<not> (a = CHR ''-'' \<and> b = CHR ''-'')) ?s3"
    by (rule successively_replaceRuns) simp
  ultimately show ?thesis
    using stripEdgeHyphens_ends by auto
qed

lemma latinLower_high: "l \<in> set latinLower \<Longrightarrow> digit7 l"
  by (auto simp: latinLower_def)

lemma asciiLower_low: "l \<in> set asciiLower \<Longrightarrow> \<not> digit7 l"
  by (auto simp: asciiLower_def)

lemma decimalDigits_low: "l \<in> set decimalDigits \<Longrightarrow> \<not> digit7 l"
  by (auto simp: decimalDigits_def)

lemma toLowerCase_alnum:
  assumes "(case map_of (zip (asciiUpper @ latinUpper) (asciiLower @ latinLower)) c of
              None \<Rightarrow> c | Some l \<Rightarrow> l) \<in> set asciiLower \<union> set decimalDigits"
  shows "c \<in> set asciiUpper \<union> set asciiLower \<union> set decimalDigits"
proof (cases "map_of (zip (asciiUpper @ latinUpper) (asciiLower @ latinLower)) c")
  case None
  with assms show ?thesis by simp
next
  case (Some l)
  have l: "l \<in> set asciiLower \<union> set decimalDigits"
    using assms Some by simp
  have "zip (asciiUpper @ latinUpper) (asciiLower @ latinLower)
          = zip asciiUpper asciiLower @ zip latinUpper latinLower"
    by (rule zip_append) (simp add: asciiUpper_def asciiLower_def)
  moreover have "(c, l) \<in> set (zip (asciiUpper @ latinUpper) (asciiLower @ latinLower))"
    using Some by (rule map_of_SomeD)
  ultimately consider "(c, l) \<in> set (zip asciiUpper asciiLower)"
    | "(c, l) \<in> set (zip latinUpper latinLower)"
    by auto
  then show ?thesis
  proof cases
    case 1
    then have "c \<in> set asciiUpper"
      by (rule set_zip_leftD)
    then show ?thesis by simp
  next
    case 2
    then have "l \<in> set latinLower"
      by (rule set_zip_rightD)
    then have "digit7 l"
      by (rule latinLower_high)
    with l show ?thesis
      using asciiLower_low decimalDigits_low by auto
  qed
qed

lemma createCleanFileName_no_alnum:
  assumes "\<forall>c\<in>set title. c \<notin> set asciiUpper \<union> set asciiLower \<union> set decimalDigits"
  shows "createCleanFileName title = []"
proof -
  let ?slug = "filter isSlugChar (toLowerCase title)"
  let ?s2 = "replaceRuns isWhiteSpace CHR ''-'' ?slug"
  let ?s3 = "replaceRuns (\<lambda>c. c = CHR ''-'') CHR ''-'' ?s2"
  have "\<forall>c\<in>set (toLowerCase title). c \<notin> set asciiLower \<union> set decimalDigits"
  proof
    fix c
    assume "c \<in> set (toLowerCase title)"
    then obtain c0 where c0: "c0 \<in> set title"
      and c: "c = (case map_of (zip (asciiUpper @ latinUpper) (asciiLower @ latinLower)) c0 of
                    None \<Rightarrow> c0 | Some l \<Rightarrow> l)"
      by (auto simp: toLowerCase_def)
    show "c \<notin> set asciiLower \<union> set decimalDigits"
    proof
      assume "c \<in> set asciiLower \<union> set decimalDigits"
      then have "c0 \<in> set asciiUpper \<union> set asciiLower \<union> set decimalDigits"
        unfolding c by (rule toLowerCase_alnum)
      with assms c0 show False by blast
    qed
  qed
  then have slug: "\<forall>c\<in>set ?slug. isWhiteSpace c \<or> c = CHR ''-''"
    by (auto simp: isSlugChar_def)
  have "\<forall>c\<in>set ?s2. c = CHR ''-''"
    using set_replaceRuns [of isWhiteSpace "CHR ''-''" ?slug] slug by auto
  then have "?s3 = (if ?s2 = [] then [] else [CHR ''-''])"
    by (rule replaceRuns_all_in_class)
  then have "stripEdgeHyphens ?s3 = []"
    by (simp add: stripEdgeHyphens_def split: if_splits)
  then show ?thesis
    by (simp add: createCleanFileName_def)
qed

text \<open>
  C10: the name \<^verbatim>\<open>createCleanFileName\<close> derives from a title should, besides what is
  proved above, never end with a hyphen.  The code removes the hyphens at the two ends
  before it cuts the name to 100 characters: a title of 99 letters, a space and a
  letter gives 99 letters and a hyphen.
\<close>

theorem truncation_leaves_trailing_hyphen:
  "createCleanFileName (replicate 99 CHR ''a'' @ '' b'') = replicate 99 CHR ''a'' @ ''-''"
  by code_simp

section \<open>Properties of the build\<close>

subsection \<open>Traces\<close>

lemma synthesized_simps [simp]:
  "synthesized [] = []"
  "synthesized (Synthesize t # es) = t # synthesized es"
  "synthesized (WriteFile p # es) = synthesized es"
  "synthesized (Unlink p # es) = synthesized es"
  "synthesized (Concatenate ps out # es) = synthesized es"
  "synthesized (es @ es') = synthesized es @ synthesized es'"
  by (simp_all add: synthesized_def)

lemma written_simps [simp]:
  "written [] = []"
  "written (Synthesize t # es) = written es"
  "written (WriteFile p # es) = p # written es"
  "written (Unlink p # es) = written es"
  "written (Concatenate ps out # es) = written es"
  "written (es @ es') = written es @ written es'"
  by (simp_all add: written_def)

lemma concatenations_simps [simp]:
  "concatenations [] = []"
  "concatenations (Synthesize t # es) = concatenations es"
  "concatenations (WriteFile p # es) = concatenations es"
  "concatenations (Unlink p # es) = concatenations es"
  "concatenations (Concatenate ps out # es) = (ps, out) # concatenations es"
  "concatenations (es @ es') = concatenations es @ concatenations es'"
  by (simp_all add: concatenations_def)

lemma eventsSince_append: "trace w' = trace w @ es \<Longrightarrow> eventsSince w w' = es"
  by (simp add: eventsSince_def)

lemma synthesized_partEvents:
  "synthesized (concat (map (partEvents env n chunks) js)) = map ((!) chunks) js"
  by (induction js) (simp_all add: partEvents_def)

lemma written_partEvents:
  "written (concat (map (partEvents env n chunks) js)) = map (partFilePath env n) js"
  by (induction js) (simp_all add: partEvents_def)

lemma concatenations_partEvents:
  "concatenations (concat (map (partEvents env n chunks) js)) = []"
  by (induction js) (simp_all add: partEvents_def)

lemma map_nth_upt_take: "m \<le> length xs \<Longrightarrow> map ((!) xs) [0..<m] = take m xs"
  by (simp add: list_eq_iff_nth_eq)

lemma synthesized_map_Unlink [simp]: "synthesized (map Unlink us) = []"
  by (induction us) simp_all

lemma written_map_Unlink [simp]: "written (map Unlink us) = []"
  by (induction us) simp_all

lemma concatenations_map_Unlink [simp]: "concatenations (map Unlink us) = []"
  by (induction us) simp_all

lemma take_Suc_nth_upt:
  "m < length xs \<Longrightarrow> map ((!) xs) [0..<m] @ [xs ! m] = take (Suc m) xs"
  by (simp add: take_Suc_conv_app_nth map_nth_upt_take)

subsection \<open>Paths\<close>

lemma finalFilePath_not_part: "finalFilePath env n \<noteq> partFilePath env n i"
  by (simp add: finalFilePath_def partFilePath_def partFileName_def pathJoin_def)

lemma finalFilePath_not_concatList: "finalFilePath env n \<noteq> concatListPath env"
proof
  assume "finalFilePath env n = concatListPath env"
  then have "last (n @ ''.mp3'') = last ''.concat-list.txt''"
    by (simp add: finalFilePath_def concatListPath_def pathJoin_def)
  then show False by simp
qed

lemma partFilePath_not_concatList: "partFilePath env n i \<noteq> concatListPath env"
proof
  assume "partFilePath env n i = concatListPath env"
  then have "last (partFileName n i @ ''.mp3'') = last ''.concat-list.txt''"
    by (simp add: partFilePath_def concatListPath_def pathJoin_def)
  then show False by simp
qed

subsection \<open>One request, the loop over the chunks, the concatenation\<close>

lemma generateAudio_ok:
  assumes "synthesizeSpeech env (length (synthesized (trace w))) text = TtsResponds (Some a)"
  shows "generateAudio env text n w =
           (Inr \<lparr>filePath = pathJoin (outputDir env) (n @ ''.mp3''), fileName = n @ ''.mp3'',
                 fileSize = length a\<rparr>,
            w\<lparr>files := (files w)(pathJoin (outputDir env) (n @ ''.mp3'') \<mapsto> a),
              trace := trace w @ [Synthesize text, WriteFile (pathJoin (outputDir env) (n @ ''.mp3''))]\<rparr>)"
  using assms by (simp add: generateAudio_def writeFileSync_def statSync_def Let_def)

lemma generateAudio_fail:
  assumes "\<not> ttsOk (synthesizeSpeech env (length (synthesized (trace w))) text)"
  shows "generateAudio env text n w =
           (Inl (Error (''TTS generation failed: '' @
                  ttsFailure (synthesizeSpeech env (length (synthesized (trace w))) text))),
            w\<lparr>trace := trace w @ [Synthesize text]\<rparr>)"
proof (cases "synthesizeSpeech env (length (synthesized (trace w))) text")
  case (TtsRejects msg)
  then show ?thesis
    by (simp add: generateAudio_def Let_def)
next
  case (TtsResponds content)
  with assms have "content = None"
    by (cases content) simp_all
  with TtsResponds show ?thesis
    by (simp add: generateAudio_def Let_def)
qed

lemma ttsOk_audio: "ttsOk r \<Longrightarrow> \<exists>a. r = TtsResponds (Some a)"
  by (cases r rule: ttsOk.cases) simp_all

lemma generateParts_post:
  assumes "generateParts env n chunks i acc w = (r, w')"
    and "i \<le> length chunks"
    and "length (synthesized (trace w)) = k + i"
  shows "\<exists>m. i \<le> m \<and> m \<le> length chunks \<and>
           (\<forall>j. i \<le> j \<and> j < m \<longrightarrow> ttsOk (responseAt env k chunks j)) \<and>
           dom (files w') = dom (files w) \<union> partFilePath env n ` {i..<m} \<and>
           (case r of
              Inr ps \<Rightarrow> m = length chunks \<and> ps = acc @ map (partFilePath env n) [i..<m] \<and>
                 trace w' = trace w @ concat (map (partEvents env n chunks) [i..<m])
            | Inl e \<Rightarrow> m < length chunks \<and> \<not> ttsOk (responseAt env k chunks m) \<and>
                 e = Error (''TTS generation failed: '' @ ttsFailure (responseAt env k chunks m)) \<and>
                 trace w' = trace w @ concat (map (partEvents env n chunks) [i..<m])
                              @ [Synthesize (chunks ! m)])"
  using assms
proof (induction "length chunks - i" arbitrary: i acc w)
  case 0
  then have "i = length chunks" by simp
  with 0 have "r = Inr acc" "w' = w"
    by (simp_all add: generateParts.simps)
  with \<open>i = length chunks\<close> show ?case
    by (intro exI [of _ i]) auto
next
  case (Suc d)
  then have lt: "i < length chunks" by simp
  let ?resp = "synthesizeSpeech env (length (synthesized (trace w))) (chunks ! i)"
  have resp: "?resp = responseAt env k chunks i"
    using Suc.prems(3) by (simp add: responseAt_def)
  show ?case
  proof (cases "ttsOk ?resp")
    case False
    have "generateParts env n chunks i acc w =
            (Inl (Error (''TTS generation failed: '' @ ttsFailure ?resp)),
             w\<lparr>trace := trace w @ [Synthesize (chunks ! i)]\<rparr>)"
      using lt by (simp add: generateParts.simps [of env n chunks i] generateAudio_fail [OF False])
    with Suc.prems(1) have "r = Inl (Error (''TTS generation failed: '' @ ttsFailure ?resp))"
      and "w' = w\<lparr>trace := trace w @ [Synthesize (chunks ! i)]\<rparr>"
      by simp_all
    with False lt resp show ?thesis
      by (intro exI [of _ i]) auto
  next
    case True
    then obtain a where a: "?resp = TtsResponds (Some a)"
      using ttsOk_audio by blast
    let ?w1 = "w\<lparr>files := (files w)(partFilePath env n i \<mapsto> a),
                  trace := trace w @ partEvents env n chunks i\<rparr>"
    have step: "generateParts env n chunks i acc w =
                  generateParts env n chunks (Suc i) (acc @ [partFilePath env n i]) ?w1"
      using lt
      by (simp add: generateParts.simps [of env n chunks i] generateAudio_ok [OF a]
            partFilePath_def partEvents_def)
    have "\<exists>m. Suc i \<le> m \<and> m \<le> length chunks \<and>
           (\<forall>j. Suc i \<le> j \<and> j < m \<longrightarrow> ttsOk (responseAt env k chunks j)) \<and>
           dom (files w') = dom (files ?w1) \<union> partFilePath env n ` {Suc i..<m} \<and>
           (case r of
              Inr ps \<Rightarrow> m = length chunks \<and>
                 ps = (acc @ [partFilePath env n i]) @ map (partFilePath env n) [Suc i..<m] \<and>
                 trace w' = trace ?w1 @ concat (map (partEvents env n chunks) [Suc i..<m])
            | Inl e \<Rightarrow> m < length chunks \<and> \<not> ttsOk (responseAt env k chunks m) \<and>
                 e = Error (''TTS generation failed: '' @ ttsFailure (responseAt env k chunks m)) \<and>
                 trace w' = trace ?w1 @ concat (map (partEvents env n chunks) [Suc i..<m])
                              @ [Synthesize (chunks ! m)])"
    proof (rule Suc.hyps(1))
      show "d = length chunks - Suc i" using Suc.hyps(2) by simp
      show "generateParts env n chunks (Suc i) (acc @ [partFilePath env n i]) ?w1 = (r, w')"
        using step Suc.prems(1) by simp
      show "Suc i \<le> length chunks" using lt by simp
      show "length (synthesized (trace ?w1)) = k + Suc i"
        using Suc.prems(3) by (simp add: partEvents_def)
    qed
    then obtain m where m: "Suc i \<le> m" "m \<le> length chunks"
      "\<forall>j. Suc i \<le> j \<and> j < m \<longrightarrow> ttsOk (responseAt env k chunks j)"
      "dom (files w') = dom (files ?w1) \<union> partFilePath env n ` {Suc i..<m}"
      "case r of
              Inr ps \<Rightarrow> m = length chunks \<and>
                 ps = (acc @ [partFilePath env n i]) @ map (partFilePath env n) [Suc i..<m] \<and>
                 trace w' = trace ?w1 @ concat (map (partEvents env n chunks) [Suc i..<m])
            | Inl e \<Rightarrow> m < length chunks \<and> \<not> ttsOk (responseAt env k chunks m) \<and>
                 e = Error (''TTS generation failed: '' @ ttsFailure (responseAt env k chunks m)) \<and>
                 trace w' = trace ?w1 @ concat (map (partEvents env n chunks) [Suc i..<m])
                              @ [Synthesize (chunks ! m)]"
      by blast
    have upt: "[i..<m] = i # [Suc i..<m]"
      using m(1) by (simp add: upt_conv_Cons)
    have range: "{i..<m} = insert i {Suc i..<m}"
      using m(1) by auto
    have ok: "\<forall>j. i \<le> j \<and> j < m \<longrightarrow> ttsOk (responseAt env k chunks j)"
    proof (intro allI impI)
      fix j assume "i \<le> j \<and> j < m"
      then show "ttsOk (responseAt env k chunks j)"
        using m(3) True resp by (cases "j = i") auto
    qed
    have dom: "dom (files w') = dom (files w) \<union> partFilePath env n ` {i..<m}"
      using m(4) range by auto
    show ?thesis
    proof (intro exI [of _ m] conjI)
      show "i \<le> m" using m(1) by simp
      show "m \<le> length chunks" by (rule m(2))
      show "\<forall>j. i \<le> j \<and> j < m \<longrightarrow> ttsOk (responseAt env k chunks j)" by (rule ok)
      show "dom (files w') = dom (files w) \<union> partFilePath env n ` {i..<m}" by (rule dom)
      show "case r of
              Inr ps \<Rightarrow> m = length chunks \<and> ps = acc @ map (partFilePath env n) [i..<m] \<and>
                 trace w' = trace w @ concat (map (partEvents env n chunks) [i..<m])
            | Inl e \<Rightarrow> m < length chunks \<and> \<not> ttsOk (responseAt env k chunks m) \<and>
                 e = Error (''TTS generation failed: '' @ ttsFailure (responseAt env k chunks m)) \<and>
                 trace w' = trace w @ concat (map (partEvents env n chunks) [i..<m])
                              @ [Synthesize (chunks ! m)]"
        using m(5) upt by (cases r) simp_all
    qed
  qed
qed

lemma files_unlinkIfExists: "files (unlinkIfExists w f) = (files w)(f := None)"
  by (auto simp: unlinkIfExists_def existsSync_def unlinkSync_def)

lemma trace_unlinkIfExists:
  "trace (unlinkIfExists w f) = trace w @ map Unlink (if existsSync f w then [f] else [])"
  by (simp add: unlinkIfExists_def unlinkSync_def)

lemma unlink_existing_files:
  "files (foldl unlinkIfExists w ps) = (\<lambda>p. if p \<in> set ps then None else files w p)"
proof (induction ps arbitrary: w)
  case Nil
  show ?case by simp
next
  case (Cons f ps)
  have "files (foldl unlinkIfExists w (f # ps))
          = (\<lambda>p. if p \<in> set ps then None else files (unlinkIfExists w f) p)"
    by (simp add: Cons.IH)
  also have "\<dots> = (\<lambda>p. if p \<in> set (f # ps) then None else files w p)"
    by (rule ext) (simp add: files_unlinkIfExists)
  finally show ?case .
qed

lemma unlink_existing_trace:
  "\<exists>us. trace (foldl unlinkIfExists w ps) = trace w @ map Unlink us"
proof (induction ps arbitrary: w)
  case Nil
  show ?case by simp
next
  case (Cons f ps)
  obtain us where "trace (foldl unlinkIfExists (unlinkIfExists w f) ps)
          = trace (unlinkIfExists w f) @ map Unlink us"
    using Cons.IH by blast
  then have "trace (foldl unlinkIfExists w (f # ps))
          = trace w @ map Unlink ((if existsSync f w then [f] else []) @ us)"
    by (simp add: trace_unlinkIfExists)
  then show ?case by blast
qed

lemma concatenateAudioFiles_post:
  assumes "concatenateAudioFiles env parts out w = (r, w')"
  shows "case r of
           Inr u \<Rightarrow> \<exists>merged us fs.
             ffmpeg env fs (concatListPath env) out = FfmpegEnd merged \<and>
             files w' = (\<lambda>p. if p \<in> set parts \<or> p = concatListPath env then None
                             else if p = out then Some merged else files w p) \<and>
             trace w' = trace w @ [Concatenate parts out, WriteFile (concatListPath env),
                                   WriteFile out, Unlink (concatListPath env)] @ map Unlink us
         | Inl e \<Rightarrow> \<exists>msg partial fs.
             ffmpeg env fs (concatListPath env) out = FfmpegError msg partial \<and>
             e = Error (''FFmpeg concatenation failed: '' @ msg) \<and>
             files w' = (\<lambda>p. if p = concatListPath env then None
                             else if p = out then (case partial of None \<Rightarrow> files w p | Some c \<Rightarrow> Some c)
                             else files w p) \<and>
             trace w' = trace w @ [Concatenate parts out, WriteFile (concatListPath env)]
                          @ (case partial of None \<Rightarrow> [] | Some c \<Rightarrow> [WriteFile out])
                          @ [Unlink (concatListPath env)]"
proof -
  let ?list = "concatList parts"
  let ?w1 = "writeFileSync (concatListPath env) ?list (w\<lparr>trace := trace w @ [Concatenate parts out]\<rparr>)"
  show ?thesis
  proof (cases "ffmpeg env (files ?w1) (concatListPath env) out")
    case (FfmpegEnd merged)
    let ?w3 = "unlinkSync (concatListPath env) (writeFileSync out merged ?w1)"
    let ?w4 = "foldl unlinkIfExists ?w3 parts"
    have res: "r = Inr ()" "w' = ?w4"
      using assms FfmpegEnd by (simp_all add: concatenateAudioFiles_def Let_def)
    obtain us where us: "trace ?w4 = trace ?w3 @ map Unlink us"
      using unlink_existing_trace by blast
    have "files ?w4 = (\<lambda>p. if p \<in> set parts \<or> p = concatListPath env then None
                             else if p = out then Some merged else files w p)"
      by (auto simp: unlink_existing_files unlinkSync_def writeFileSync_def intro!: ext)
    moreover have "trace ?w4 = trace w @ [Concatenate parts out, WriteFile (concatListPath env),
                                   WriteFile out, Unlink (concatListPath env)] @ map Unlink us"
      using us by (simp add: unlinkSync_def writeFileSync_def)
    ultimately show ?thesis
      using res FfmpegEnd by auto
  next
    case (FfmpegError msg partial)
    let ?w2 = "case partial of None \<Rightarrow> ?w1 | Some content \<Rightarrow> writeFileSync out content ?w1"
    have ex: "existsSync (concatListPath env) ?w2"
      by (cases partial) (simp_all add: existsSync_def writeFileSync_def)
    have res: "r = Inl (Error (''FFmpeg concatenation failed: '' @ msg))"
      "w' = unlinkSync (concatListPath env) ?w2"
      using assms FfmpegError ex by (simp_all add: concatenateAudioFiles_def Let_def)
    have "files w' = (\<lambda>p. if p = concatListPath env then None
                             else if p = out then (case partial of None \<Rightarrow> files w p | Some c \<Rightarrow> Some c)
                             else files w p)"
      unfolding res by (cases partial) (auto simp: unlinkSync_def writeFileSync_def intro!: ext)
    moreover have "trace w' = trace w @ [Concatenate parts out, WriteFile (concatListPath env)]
                          @ (case partial of None \<Rightarrow> [] | Some c \<Rightarrow> [WriteFile out])
                          @ [Unlink (concatListPath env)]"
      unfolding res by (cases partial) (simp_all add: unlinkSync_def writeFileSync_def)
    ultimately show ?thesis
      using res(1) FfmpegError by auto
  qed
qed

subsection \<open>The three ways a chunked build ends\<close>

lemma chunked_build_cases:
  fixes env title content w
  defines "n \<equiv> createCleanFileName title"
    and "chunks \<equiv> splitTextIntoChunks (cleanContentForTTS env title content)"
    and "k \<equiv> length (synthesized (trace w))"
  assumes over: "MAX_CHARS_PER_REQUEST < length (cleanContentForTTS env title content)"
    and build: "generateChapterAudioWithChunking env title content w = (r, w')"
  obtains
    (synthesisFailed) m where
      "m < length chunks"
      "\<forall>j<m. ttsOk (responseAt env k chunks j)"
      "\<not> ttsOk (responseAt env k chunks m)"
      "r = Inl (Error (''TTS generation failed: '' @ ttsFailure (responseAt env k chunks m)))"
      "trace w' = trace w @ concat (map (partEvents env n chunks) [0..<m]) @ [Synthesize (chunks ! m)]"
      "dom (files w') = dom (files w) \<union> partFilePath env n ` {0..<m}"
  | (mergeFailed) msg partial fs where
      "\<forall>j<length chunks. ttsOk (responseAt env k chunks j)"
      "ffmpeg env fs (concatListPath env) (finalFilePath env n) = FfmpegError msg partial"
      "r = Inl (Error (''FFmpeg concatenation failed: '' @ msg))"
      "trace w' = trace w @ concat (map (partEvents env n chunks) [0..<length chunks])
         @ [Concatenate (map (partFilePath env n) [0..<length chunks]) (finalFilePath env n),
            WriteFile (concatListPath env)]
         @ (case partial of None \<Rightarrow> [] | Some c \<Rightarrow> [WriteFile (finalFilePath env n)])
         @ [Unlink (concatListPath env)]"
      "dom (files w') = (dom (files w) \<union> partFilePath env n ` {0..<length chunks}
                          \<union> (case partial of None \<Rightarrow> {} | Some c \<Rightarrow> {finalFilePath env n}))
                        - {concatListPath env}"
  | (succeeded) merged us fs where
      "\<forall>j<length chunks. ttsOk (responseAt env k chunks j)"
      "ffmpeg env fs (concatListPath env) (finalFilePath env n) = FfmpegEnd merged"
      "r = Inr \<lparr>filePath = finalFilePath env n, fileName = n @ ''.mp3'', fileSize = length merged\<rparr>"
      "trace w' = trace w @ concat (map (partEvents env n chunks) [0..<length chunks])
         @ [Concatenate (map (partFilePath env n) [0..<length chunks]) (finalFilePath env n),
            WriteFile (concatListPath env), WriteFile (finalFilePath env n),
            Unlink (concatListPath env)]
         @ map Unlink us"
      "files w' (finalFilePath env n) = Some merged"
      "dom (files w') = (dom (files w) \<union> {finalFilePath env n})
                        - {concatListPath env} - partFilePath env n ` {0..<length chunks}"
proof -
  obtain r1 w1 where parts: "generateParts env n chunks 0 [] w = (r1, w1)"
    by (cases "generateParts env n chunks 0 [] w") blast
  note post1 = generateParts_post [OF parts, of k]
  show thesis
  proof (cases r1)
    case (Inl e)
    have res: "r = Inl e" "w' = w1"
      using build over parts Inl
      by (simp_all add: generateChapterAudioWithChunking_def Let_def n_def chunks_def)
    from post1 Inl obtain m where "m < length chunks"
      "\<forall>j<m. ttsOk (responseAt env k chunks j)"
      "\<not> ttsOk (responseAt env k chunks m)"
      "e = Error (''TTS generation failed: '' @ ttsFailure (responseAt env k chunks m))"
      "trace w1 = trace w @ concat (map (partEvents env n chunks) [0..<m]) @ [Synthesize (chunks ! m)]"
      "dom (files w1) = dom (files w) \<union> partFilePath env n ` {0..<m}"
      by (auto simp: k_def)
    with res show thesis
      by (intro synthesisFailed [where m = m]) simp_all
  next
    case (Inr ps)
    from post1 Inr obtain m where m: "\<forall>j<m. ttsOk (responseAt env k chunks j)"
      "dom (files w1) = dom (files w) \<union> partFilePath env n ` {0..<m}"
      and full: "m = length chunks" and ps: "ps = map (partFilePath env n) [0..<length chunks]"
      and t1: "trace w1 = trace w @ concat (map (partEvents env n chunks) [0..<length chunks])"
      by (auto simp: k_def)
    obtain r2 w2 where merge: "concatenateAudioFiles env ps (finalFilePath env n) w1 = (r2, w2)"
      by (cases "concatenateAudioFiles env ps (finalFilePath env n) w1") blast
    note post = concatenateAudioFiles_post [OF merge]
    have notpart: "finalFilePath env n \<notin> set ps"
      using finalFilePath_not_part [of env n] by (auto simp: ps)
    show thesis
    proof (cases r2)
      case (Inl e)
      have res: "r = Inl e" "w' = w2"
        using build over parts Inr merge Inl
        by (simp_all add: generateChapterAudioWithChunking_def Let_def n_def chunks_def
              finalFilePath_def)
      from post Inl obtain msg partial fs where
        f: "ffmpeg env fs (concatListPath env) (finalFilePath env n) = FfmpegError msg partial"
        and e: "e = Error (''FFmpeg concatenation failed: '' @ msg)"
        and fl: "files w2 = (\<lambda>p. if p = concatListPath env then None
                             else if p = finalFilePath env n
                               then (case partial of None \<Rightarrow> files w1 p | Some c \<Rightarrow> Some c)
                             else files w1 p)"
        and tr: "trace w2 = trace w1 @ [Concatenate ps (finalFilePath env n), WriteFile (concatListPath env)]
                          @ (case partial of None \<Rightarrow> [] | Some c \<Rightarrow> [WriteFile (finalFilePath env n)])
                          @ [Unlink (concatListPath env)]"
        by auto
      have d: "dom (files w2) = (dom (files w1)
                 \<union> (case partial of None \<Rightarrow> {} | Some c \<Rightarrow> {finalFilePath env n}))
                 - {concatListPath env}"
        unfolding fl using finalFilePath_not_concatList [of env n]
        by (cases partial) (auto simp: dom_def)
      show thesis
      proof (rule mergeFailed [where msg = msg and partial = partial and fs = fs])
        show "\<forall>j<length chunks. ttsOk (responseAt env k chunks j)"
          using m(1) full by simp
        show "ffmpeg env fs (concatListPath env) (finalFilePath env n) = FfmpegError msg partial"
          by (rule f)
        show "r = Inl (Error (''FFmpeg concatenation failed: '' @ msg))"
          using res e by simp
        show "trace w' = trace w @ concat (map (partEvents env n chunks) [0..<length chunks])
         @ [Concatenate (map (partFilePath env n) [0..<length chunks]) (finalFilePath env n),
            WriteFile (concatListPath env)]
         @ (case partial of None \<Rightarrow> [] | Some c \<Rightarrow> [WriteFile (finalFilePath env n)])
         @ [Unlink (concatListPath env)]"
          using res tr t1 ps by simp
        show "dom (files w') = (dom (files w) \<union> partFilePath env n ` {0..<length chunks}
                          \<union> (case partial of None \<Rightarrow> {} | Some c \<Rightarrow> {finalFilePath env n}))
                        - {concatListPath env}"
          using res d m(2) full by simp
      qed
    next
      case (Inr u)
      from post Inr obtain merged us fs where
        f: "ffmpeg env fs (concatListPath env) (finalFilePath env n) = FfmpegEnd merged"
        and fl: "files w2 = (\<lambda>p. if p \<in> set ps \<or> p = concatListPath env then None
                             else if p = finalFilePath env n then Some merged else files w1 p)"
        and tr: "trace w2 = trace w1 @ [Concatenate ps (finalFilePath env n), WriteFile (concatListPath env),
                                   WriteFile (finalFilePath env n), Unlink (concatListPath env)]
                              @ map Unlink us"
        by auto
      have final: "files w2 (finalFilePath env n) = Some merged"
        unfolding fl using notpart finalFilePath_not_concatList [of env n] by simp
      have res: "r = Inr \<lparr>filePath = finalFilePath env n, fileName = n @ ''.mp3'',
                         fileSize = length merged\<rparr>" "w' = w2"
        using build over parts \<open>r1 = Inr ps\<close> merge Inr final
        by (simp_all add: generateChapterAudioWithChunking_def Let_def n_def chunks_def
              finalFilePath_def statSync_def)
      have d: "dom (files w2) = (dom (files w1) \<union> {finalFilePath env n})
                  - {concatListPath env} - set ps"
        unfolding fl by (auto simp: dom_def split: if_splits)
      show thesis
      proof (rule succeeded [where merged = merged and us = us and fs = fs])
        show "\<forall>j<length chunks. ttsOk (responseAt env k chunks j)"
          using m(1) full by simp
        show "ffmpeg env fs (concatListPath env) (finalFilePath env n) = FfmpegEnd merged"
          by (rule f)
        show "r = Inr \<lparr>filePath = finalFilePath env n, fileName = n @ ''.mp3'',
                       fileSize = length merged\<rparr>"
          by (rule res(1))
        show "trace w' = trace w @ concat (map (partEvents env n chunks) [0..<length chunks])
         @ [Concatenate (map (partFilePath env n) [0..<length chunks]) (finalFilePath env n),
            WriteFile (concatListPath env), WriteFile (finalFilePath env n),
            Unlink (concatListPath env)]
         @ map Unlink us"
          using res tr t1 ps by simp
        show "files w' (finalFilePath env n) = Some merged"
          using res final by simp
        show "dom (files w') = (dom (files w) \<union> {finalFilePath env n})
                        - {concatListPath env} - partFilePath env n ` {0..<length chunks}"
          using res d m(2) full ps by auto
      qed
    qed
  qed
qed

lemma build_first_failure:
  fixes env title content w
  defines "n \<equiv> createCleanFileName title"
    and "chunks \<equiv> splitTextIntoChunks (cleanContentForTTS env title content)"
    and "k \<equiv> length (synthesized (trace w))"
    and "w' \<equiv> snd (generateChapterAudioWithChunking env title content w)"
  assumes over: "MAX_CHARS_PER_REQUEST < length (cleanContentForTTS env title content)"
    and m: "m < length chunks"
    and before: "\<forall>j<m. ttsOk (responseAt env k chunks j)"
    and at: "\<not> ttsOk (responseAt env k chunks m)"
  shows "fst (generateChapterAudioWithChunking env title content w) =
           Inl (Error (''TTS generation failed: '' @ ttsFailure (responseAt env k chunks m)))"
    and "trace w' = trace w @ concat (map (partEvents env n chunks) [0..<m]) @ [Synthesize (chunks ! m)]"
    and "dom (files w') = dom (files w) \<union> partFilePath env n ` {0..<m}"
proof -
  obtain r where build: "generateChapterAudioWithChunking env title content w = (r, w')"
    unfolding w'_def by (cases "generateChapterAudioWithChunking env title content w") simp
  have "r = Inl (Error (''TTS generation failed: '' @ ttsFailure (responseAt env k chunks m))) \<and>
        trace w' = trace w @ concat (map (partEvents env n chunks) [0..<m]) @ [Synthesize (chunks ! m)] \<and>
        dom (files w') = dom (files w) \<union> partFilePath env n ` {0..<m}"
    using over build
  proof (cases rule: chunked_build_cases)
    case (synthesisFailed m')
    have "m' = m"
    proof (cases m' m rule: linorder_cases)
      case less
      with before synthesisFailed(3) show ?thesis
        by (simp add: chunks_def k_def)
    next
      case greater
      with at synthesisFailed(2) show ?thesis
        by (simp add: chunks_def k_def)
    qed simp
    with synthesisFailed show ?thesis
      by (simp add: chunks_def k_def n_def)
  next
    case (mergeFailed msg partial fs)
    with m at show ?thesis
      by (simp add: chunks_def k_def)
  next
    case (succeeded merged us fs)
    with m at show ?thesis
      by (simp add: chunks_def k_def)
  qed
  with build show
    "fst (generateChapterAudioWithChunking env title content w) =
           Inl (Error (''TTS generation failed: '' @ ttsFailure (responseAt env k chunks m)))"
    "trace w' = trace w @ concat (map (partEvents env n chunks) [0..<m]) @ [Synthesize (chunks ! m)]"
    "dom (files w') = dom (files w) \<union> partFilePath env n ` {0..<m}"
    by simp_all
qed

lemma build_merge_error:
  fixes env title content w
  defines "n \<equiv> createCleanFileName title"
    and "chunks \<equiv> splitTextIntoChunks (cleanContentForTTS env title content)"
    and "k \<equiv> length (synthesized (trace w))"
    and "w' \<equiv> snd (generateChapterAudioWithChunking env title content w)"
  assumes over: "MAX_CHARS_PER_REQUEST < length (cleanContentForTTS env title content)"
    and ok: "\<forall>j<length chunks. ttsOk (responseAt env k chunks j)"
    and merge: "\<And>fs. ffmpeg env fs (concatListPath env) (finalFilePath env n) = FfmpegError msg partial"
  shows "fst (generateChapterAudioWithChunking env title content w) =
           Inl (Error (''FFmpeg concatenation failed: '' @ msg))"
    and "dom (files w') = (dom (files w) \<union> partFilePath env n ` {0..<length chunks}
                          \<union> (case partial of None \<Rightarrow> {} | Some c \<Rightarrow> {finalFilePath env n}))
                        - {concatListPath env}"
proof -
  obtain r where build: "generateChapterAudioWithChunking env title content w = (r, w')"
    unfolding w'_def by (cases "generateChapterAudioWithChunking env title content w") simp
  have "r = Inl (Error (''FFmpeg concatenation failed: '' @ msg)) \<and>
        dom (files w') = (dom (files w) \<union> partFilePath env n ` {0..<length chunks}
                          \<union> (case partial of None \<Rightarrow> {} | Some c \<Rightarrow> {finalFilePath env n}))
                        - {concatListPath env}"
    using over build
  proof (cases rule: chunked_build_cases)
    case (synthesisFailed m')
    with ok show ?thesis
      by (simp add: chunks_def k_def)
  next
    case (mergeFailed msg' partial' fs)
    from mergeFailed(2) merge [of fs] have "msg' = msg" "partial' = partial"
      by (simp_all add: n_def)
    with mergeFailed show ?thesis
      by (cases partial) (simp_all add: chunks_def n_def)
  next
    case (succeeded merged us fs)
    from succeeded(2) merge [of fs] show ?thesis
      by (simp add: n_def)
  qed
  with build show
    "fst (generateChapterAudioWithChunking env title content w) =
           Inl (Error (''FFmpeg concatenation failed: '' @ msg))"
    "dom (files w') = (dom (files w) \<union> partFilePath env n ` {0..<length chunks}
                          \<union> (case partial of None \<Rightarrow> {} | Some c \<Rightarrow> {finalFilePath env n}))
                        - {concatListPath env}"
    by simp_all
qed

lemma build_success:
  fixes env title content w
  defines "n \<equiv> createCleanFileName title"
    and "chunks \<equiv> splitTextIntoChunks (cleanContentForTTS env title content)"
    and "k \<equiv> length (synthesized (trace w))"
  assumes over: "MAX_CHARS_PER_REQUEST < length (cleanContentForTTS env title content)"
    and ok: "\<forall>j<length chunks. ttsOk (responseAt env k chunks j)"
    and merge: "\<And>fs. ffmpeg env fs (concatListPath env) (finalFilePath env n) = FfmpegEnd merged"
  shows "fst (generateChapterAudioWithChunking env title content w) =
           Inr \<lparr>filePath = finalFilePath env n, fileName = n @ ''.mp3'', fileSize = length merged\<rparr>"
proof -
  obtain r w' where build: "generateChapterAudioWithChunking env title content w = (r, w')"
    by (cases "generateChapterAudioWithChunking env title content w") simp
  have "r = Inr \<lparr>filePath = finalFilePath env n, fileName = n @ ''.mp3'', fileSize = length merged\<rparr>"
    using over build
  proof (cases rule: chunked_build_cases)
    case (synthesisFailed m')
    with ok show ?thesis
      by (simp add: chunks_def k_def)
  next
    case (mergeFailed msg' partial' fs)
    from mergeFailed(2) merge [of fs] show ?thesis
      by (simp add: n_def)
  next
    case (succeeded merged' us fs)
    from succeeded(2) merge [of fs] have "merged' = merged"
      by (simp add: n_def)
    with succeeded show ?thesis
      by (simp add: n_def)
  qed
  with build show ?thesis by simp
qed

subsection \<open>The scripted surroundings\<close>

lemma splitTextIntoChunks_twoParagraphs:
  "splitTextIntoChunks twoParagraphs = [replicate 4500 CHR ''a'', replicate 4500 CHR ''b'']"
proof -
  let ?A = "replicate 4500 CHR ''a''" and ?B = "replicate 4500 CHR ''b''"
  have "regexSplit paragraphBreak None (?A @ CHR 0x0A # CHR 0x0A # ?B)
          = ?A # regexSplit paragraphBreak (Some (CHR 0x0A)) ?B"
    by (rule regexSplit_paragraph_break) simp_all
  moreover have "regexSplit paragraphBreak (Some (CHR 0x0A)) ?B = [?B]"
    by (rule regexSplit_paragraph_plain) simp
  ultimately have p: "splitParagraphs twoParagraphs = [?A, ?B]"
    by (simp add: splitParagraphs_def twoParagraphs_def)
  have a: "trim ?A = ?A"
    by (rule trim_plain) (simp_all add: isWhiteSpace_def)
  have b: "trim ?B = ?B"
    by (rule trim_plain) (simp_all add: isWhiteSpace_def)
  have "length twoParagraphs = 9002"
    by (simp add: twoParagraphs_def)
  then show ?thesis
    unfolding splitTextIntoChunks_def p
    by (simp add: MAX_CHARS_PER_REQUEST_def a b)
qed

lemma length_twoParagraphs: "length twoParagraphs = 9002"
  by (simp add: twoParagraphs_def)

lemma createCleanFileName_T: "createCleanFileName ''T'' = ''t''"
  by code_simp

lemma scripted_paths:
  "partFilePath (scriptedEnv tts merge) ''t'' 0 = ''./audio/t-part1.mp3''"
  "partFilePath (scriptedEnv tts merge) ''t'' (Suc 0) = ''./audio/t-part2.mp3''"
  "finalFilePath (scriptedEnv tts merge) ''t'' = ''./audio/t.mp3''"
  "concatListPath (scriptedEnv tts merge) = ''./audio/.concat-list.txt''"
  by (simp_all add: partFilePath_def partFileName_def finalFilePath_def concatListPath_def
        pathJoin_def scriptedEnv_def showNat.simps)

lemma scripted_clean [simp]: "cleanContentForTTS (scriptedEnv tts merge) title content = content"
  by (simp add: scriptedEnv_def)

lemma scripted_over:
  "MAX_CHARS_PER_REQUEST < length (cleanContentForTTS (scriptedEnv tts merge) title twoParagraphs)"
  by (simp add: length_twoParagraphs MAX_CHARS_PER_REQUEST_def)

lemma scripted_response:
  "responseAt (scriptedEnv tts merge) (length (synthesized (trace emptyWorld))) chunks j = tts j"
  by (simp add: responseAt_def scriptedEnv_def emptyWorld_def)

lemma scripted_ffmpeg: "ffmpeg (scriptedEnv tts merge) fs list out = merge"
  by (simp add: scriptedEnv_def)

subsection \<open>The claims about the build\<close>

text \<open>
  C6: for every build whose cleaned text has at most 4500 characters, the build is the
  one call of \<^verbatim>\<open>generateAudio\<close> on the whole text (the direct path): exactly one request
  goes to the speech service, with the cleaned text, and \<^verbatim>\<open>concatenateAudioFiles\<close> is
  not called, whether the request succeeds or not.
\<close>

theorem short_text_direct_path:
  fixes env title content w
  defines "cleanedContent \<equiv> cleanContentForTTS env title content"
    and "w' \<equiv> snd (generateChapterAudioWithChunking env title content w)"
  assumes short: "length cleanedContent \<le> MAX_CHARS_PER_REQUEST"
  shows "generateChapterAudioWithChunking env title content w =
           generateAudio env cleanedContent (createCleanFileName title) w \<and>
         synthesized (eventsSince w w') = [cleanedContent] \<and>
         concatenations (eventsSince w w') = []"
proof -
  have direct: "generateChapterAudioWithChunking env title content w =
           generateAudio env cleanedContent (createCleanFileName title) w"
    using short by (simp add: generateChapterAudioWithChunking_def cleanedContent_def Let_def)
  let ?resp = "synthesizeSpeech env (length (synthesized (trace w))) cleanedContent"
  have "\<exists>es. trace w' = trace w @ Synthesize cleanedContent # es \<and>
             synthesized es = [] \<and> concatenations es = []"
  proof (cases "ttsOk ?resp")
    case True
    then obtain a where "?resp = TtsResponds (Some a)"
      using ttsOk_audio by blast
    then show ?thesis
      unfolding w'_def direct by (simp add: generateAudio_ok)
  next
    case False
    then show ?thesis
      unfolding w'_def direct by (simp add: generateAudio_fail)
  qed
  then have "synthesized (eventsSince w w') = [cleanedContent] \<and>
             concatenations (eventsSince w w') = []"
    by (auto simp: eventsSince_def)
  with direct show ?thesis by simp
qed

theorem short_text_direct_path_witness:
  "length ''Hello'' \<le> MAX_CHARS_PER_REQUEST \<and>
   synthesized (eventsSince emptyWorld
      (snd (generateChapterAudioWithChunking
              (scriptedEnv (\<lambda>k. TtsResponds (Some ''mp3'')) (FfmpegEnd ''merged''))
              ''T'' ''Hello'' emptyWorld))) = [''Hello''] \<and>
   concatenations (eventsSince emptyWorld
      (snd (generateChapterAudioWithChunking
              (scriptedEnv (\<lambda>k. TtsResponds (Some ''mp3'')) (FfmpegEnd ''merged''))
              ''T'' ''Hello'' emptyWorld))) = []"
proof -
  let ?env = "scriptedEnv (\<lambda>k. TtsResponds (Some ''mp3'')) (FfmpegEnd ''merged'')"
  have short: "length (cleanContentForTTS ?env ''T'' ''Hello'') \<le> MAX_CHARS_PER_REQUEST"
    by (simp add: MAX_CHARS_PER_REQUEST_def)
  from short_text_direct_path [OF short, of emptyWorld, THEN conjunct2] show ?thesis
    by (simp add: MAX_CHARS_PER_REQUEST_def)
qed

text \<open>
  C7, as the code has it: for every build whose cleaned text has more than 4500
  characters, the requests to the speech service are made one per segment, in
  ascending segment order, and stop at the first segment whose request fails.  When
  every request succeeds they are all the segments, one request each; when the
  segment \<open>m\<close> is the first whose request fails they are the segments 0 to \<open>m\<close>,
  that is \<open>m + 1\<close> requests (all the segments again when \<open>m\<close> is the last one).
\<close>

theorem synthesis_follows_segment_order:
  fixes env title content w
  defines "chunks \<equiv> splitTextIntoChunks (cleanContentForTTS env title content)"
    and "k \<equiv> length (synthesized (trace w))"
    and "calls \<equiv> synthesized (eventsSince w (snd (generateChapterAudioWithChunking env title content w)))"
  assumes over: "MAX_CHARS_PER_REQUEST < length (cleanContentForTTS env title content)"
  shows "((\<forall>j<length chunks. ttsOk (responseAt env k chunks j)) \<and> calls = chunks) \<or>
         (\<exists>m<length chunks. (\<forall>j<m. ttsOk (responseAt env k chunks j)) \<and>
              \<not> ttsOk (responseAt env k chunks m) \<and> calls = take (Suc m) chunks \<and>
              length calls = Suc m)"
proof -
  obtain r w' where build: "generateChapterAudioWithChunking env title content w = (r, w')"
    by (cases "generateChapterAudioWithChunking env title content w") simp
  then have calls: "calls = synthesized (eventsSince w w')"
    by (simp add: calls_def)
  from over build show ?thesis
  proof (cases rule: chunked_build_cases)
    case (synthesisFailed m)
    have "calls = take (Suc m) chunks"
      unfolding calls eventsSince_append [OF synthesisFailed(5)]
      using synthesisFailed(1)
      by (simp add: synthesized_partEvents take_Suc_nth_upt chunks_def)
    moreover from this have "length calls = Suc m"
      using synthesisFailed(1) by (simp add: chunks_def)
    ultimately show ?thesis
      using synthesisFailed(1-3) unfolding chunks_def k_def by blast
  next
    case (mergeFailed msg partial fs)
    have "calls = chunks"
      unfolding calls eventsSince_append [OF mergeFailed(4)]
      by (cases partial) (simp_all add: synthesized_partEvents map_nth chunks_def)
    with mergeFailed(1) show ?thesis
      unfolding chunks_def k_def by blast
  next
    case (succeeded merged us fs)
    have "calls = chunks"
      unfolding calls eventsSince_append [OF succeeded(4)]
      by (simp add: synthesized_partEvents map_nth chunks_def)
    with succeeded(1) show ?thesis
      unfolding chunks_def k_def by blast
  qed
qed

theorem synthesis_follows_segment_order_witness:
  "MAX_CHARS_PER_REQUEST < length twoParagraphs \<and>
   synthesized (eventsSince emptyWorld
     (snd (generateChapterAudioWithChunking
             (scriptedEnv (\<lambda>k. TtsResponds (Some ''mp3'')) (FfmpegEnd ''merged''))
             ''T'' twoParagraphs emptyWorld)))
     = [replicate 4500 CHR ''a'', replicate 4500 CHR ''b'']"
  using synthesis_follows_segment_order [OF scripted_over,
          of "\<lambda>k. TtsResponds (Some ''mp3'')" "FfmpegEnd ''merged''" "''T''" emptyWorld]
  by (simp add: splitTextIntoChunks_twoParagraphs scripted_response length_twoParagraphs MAX_CHARS_PER_REQUEST_def)

text \<open>
  The claim as stated fails when a synthesis fails: the text has two segments, the first
  request is rejected, and that request is the only one made.
\<close>

theorem first_failure_stops_synthesis:
  "MAX_CHARS_PER_REQUEST < length (cleanContentForTTS
       (scriptedEnv (quotaAt 0) (FfmpegEnd ''merged'')) ''T'' twoParagraphs) \<and>
   length (splitTextIntoChunks (cleanContentForTTS
       (scriptedEnv (quotaAt 0) (FfmpegEnd ''merged'')) ''T'' twoParagraphs)) = 2 \<and>
   synthesized (eventsSince emptyWorld
     (snd (generateChapterAudioWithChunking (scriptedEnv (quotaAt 0) (FfmpegEnd ''merged''))
             ''T'' twoParagraphs emptyWorld))) = [replicate 4500 CHR ''a'']"
proof -
  let ?env = "scriptedEnv (quotaAt 0) (FfmpegEnd ''merged'')"
  have "trace (snd (generateChapterAudioWithChunking ?env ''T'' twoParagraphs emptyWorld)) =
          trace emptyWorld @ concat (map (partEvents ?env (createCleanFileName ''T'')
             (splitTextIntoChunks (cleanContentForTTS ?env ''T'' twoParagraphs))) [0..<0])
          @ [Synthesize (splitTextIntoChunks (cleanContentForTTS ?env ''T'' twoParagraphs) ! 0)]"
    by (rule build_first_failure(2) [OF scripted_over])
       (simp_all add: splitTextIntoChunks_twoParagraphs scripted_response quotaAt_def)
  then have "eventsSince emptyWorld
               (snd (generateChapterAudioWithChunking ?env ''T'' twoParagraphs emptyWorld))
             = [Synthesize (replicate 4500 CHR ''a'')]"
    by (simp add: eventsSince_def splitTextIntoChunks_twoParagraphs emptyWorld_def)
  then show ?thesis
    by (simp add: splitTextIntoChunks_twoParagraphs length_twoParagraphs MAX_CHARS_PER_REQUEST_def)
qed

text \<open>
  C9, as the code has it: when the speech service rejects the request for the segment
  \<open>m\<close> or answers it without audio, and the requests before it succeeded, the build
  fails at once (no further request, no concatenation) with the error
  \<^verbatim>\<open>TTS generation failed: \<close> followed by the message of the rejection or by
  \<^verbatim>\<open>No audio content received from TTS service\<close>.  The error does not carry the
  index of the segment.
\<close>

theorem synthesis_failure_aborts_build:
  fixes env title content w
  defines "chunks \<equiv> splitTextIntoChunks (cleanContentForTTS env title content)"
    and "k \<equiv> length (synthesized (trace w))"
    and "w' \<equiv> snd (generateChapterAudioWithChunking env title content w)"
  assumes over: "MAX_CHARS_PER_REQUEST < length (cleanContentForTTS env title content)"
    and m: "m < length chunks"
    and before: "\<forall>j<m. ttsOk (responseAt env k chunks j)"
    and at: "\<not> ttsOk (responseAt env k chunks m)"
  shows "fst (generateChapterAudioWithChunking env title content w) =
           Inl (Error (''TTS generation failed: '' @ ttsFailure (responseAt env k chunks m))) \<and>
         synthesized (eventsSince w w') = take (Suc m) chunks \<and>
         concatenations (eventsSince w w') = []"
proof -
  note f = build_first_failure [OF over m [unfolded chunks_def] before [unfolded chunks_def k_def]
             at [unfolded chunks_def k_def]]
  have "eventsSince w w' =
          concat (map (partEvents env (createCleanFileName title) chunks) [0..<m]) @ [Synthesize (chunks ! m)]"
    unfolding w'_def chunks_def by (rule eventsSince_append) (rule f(2))
  then have "synthesized (eventsSince w w') = take (Suc m) chunks"
    and "concatenations (eventsSince w w') = []"
    using m by (simp_all add: synthesized_partEvents concatenations_partEvents take_Suc_nth_upt)
  with f(1) show ?thesis
    by (simp add: chunks_def k_def)
qed

theorem synthesis_failure_aborts_build_witness:
  "MAX_CHARS_PER_REQUEST < length twoParagraphs \<and>
   fst (generateChapterAudioWithChunking (scriptedEnv (quotaAt 1) (FfmpegEnd ''merged''))
          ''T'' twoParagraphs emptyWorld)
     = Inl (Error ''TTS generation failed: quota exceeded'') \<and>
   synthesized (eventsSince emptyWorld
     (snd (generateChapterAudioWithChunking (scriptedEnv (quotaAt 1) (FfmpegEnd ''merged''))
             ''T'' twoParagraphs emptyWorld)))
     = [replicate 4500 CHR ''a'', replicate 4500 CHR ''b''] \<and>
   concatenations (eventsSince emptyWorld
     (snd (generateChapterAudioWithChunking (scriptedEnv (quotaAt 1) (FfmpegEnd ''merged''))
             ''T'' twoParagraphs emptyWorld))) = []"
  using synthesis_failure_aborts_build [OF scripted_over,
          of 1 "quotaAt 1" "FfmpegEnd ''merged''" "''T''" emptyWorld]
  by (simp add: splitTextIntoChunks_twoParagraphs scripted_response quotaAt_def length_twoParagraphs
        MAX_CHARS_PER_REQUEST_def)

text \<open>
  A rejection of the first segment and a rejection of the second one, with the same
  message, give the same error: the index of the segment cannot be read off it.
\<close>

theorem synthesis_error_without_index:
  "fst (generateChapterAudioWithChunking (scriptedEnv (quotaAt 0) (FfmpegEnd ''merged''))
          ''T'' twoParagraphs emptyWorld)
     = Inl (Error ''TTS generation failed: quota exceeded'') \<and>
   fst (generateChapterAudioWithChunking (scriptedEnv (quotaAt 1) (FfmpegEnd ''merged''))
          ''T'' twoParagraphs emptyWorld)
     = Inl (Error ''TTS generation failed: quota exceeded'')"
proof -
  have "fst (generateChapterAudioWithChunking (scriptedEnv (quotaAt 0) (FfmpegEnd ''merged''))
          ''T'' twoParagraphs emptyWorld)
     = Inl (Error (''TTS generation failed: '' @ ttsFailure (quotaAt 0 0)))"
    using build_first_failure(1) [OF scripted_over,
            of 0 "quotaAt 0" "FfmpegEnd ''merged''" "''T''" emptyWorld]
    by (simp add: splitTextIntoChunks_twoParagraphs scripted_response quotaAt_def)
  moreover have "fst (generateChapterAudioWithChunking (scriptedEnv (quotaAt 1) (FfmpegEnd ''merged''))
          ''T'' twoParagraphs emptyWorld)
     = Inl (Error (''TTS generation failed: '' @ ttsFailure (quotaAt 1 1)))"
    using build_first_failure(1) [OF scripted_over,
            of 1 "quotaAt 1" "FfmpegEnd ''merged''" "''T''" emptyWorld]
    by (simp add: splitTextIntoChunks_twoParagraphs scripted_response quotaAt_def)
  ultimately show ?thesis
    by (simp add: quotaAt_def)
qed

text \<open>
  C4, as the code has it: after a failed build of a text of more than 4500 characters
  no part file is cleaned up.  Every file written during the attempt other than the
  concat list is still there (the part files, and what \<^verbatim>\<open>ffmpeg\<close> wrote to the output
  path), in particular the part file of every segment before the last request; only
  the concat list is removed, when the concatenation was started.
\<close>

theorem failed_build_keeps_part_files:
  fixes env title content w
  defines "n \<equiv> createCleanFileName title"
    and "w' \<equiv> snd (generateChapterAudioWithChunking env title content w)"
  assumes over: "MAX_CHARS_PER_REQUEST < length (cleanContentForTTS env title content)"
    and failed: "fst (generateChapterAudioWithChunking env title content w) = Inl e"
  shows "(concatenations (eventsSince w w') = [] \<or> concatListPath env \<notin> dom (files w')) \<and>
         (\<forall>p\<in>set (written (eventsSince w w')). p \<noteq> concatListPath env \<longrightarrow> p \<in> dom (files w')) \<and>
         (\<forall>j. Suc j < length (synthesized (eventsSince w w')) \<longrightarrow>
              partFilePath env n j \<in> dom (files w'))"
proof -
  let ?chunks = "splitTextIntoChunks (cleanContentForTTS env title content)"
  obtain r where build: "generateChapterAudioWithChunking env title content w = (r, w')"
    unfolding w'_def by (cases "generateChapterAudioWithChunking env title content w") simp
  with failed have r: "r = Inl e" by simp
  from over build show ?thesis
  proof (cases rule: chunked_build_cases)
    case (synthesisFailed m)
    note ev = eventsSince_append [OF synthesisFailed(5)]
    show ?thesis
      unfolding ev using synthesisFailed(6)
      by (auto simp: synthesized_partEvents written_partEvents concatenations_partEvents n_def)
  next
    case (mergeFailed msg partial fs)
    note ev = eventsSince_append [OF mergeFailed(4)]
    show ?thesis
      unfolding ev using mergeFailed(5) partFilePath_not_concatList [of env n]
      by (cases partial)
         (auto simp: synthesized_partEvents written_partEvents concatenations_partEvents n_def)
  next
    case (succeeded merged us fs)
    with r show ?thesis by simp
  qed
qed

theorem failed_build_keeps_part_files_witness:
  "MAX_CHARS_PER_REQUEST < length twoParagraphs \<and>
   fst (generateChapterAudioWithChunking
          (scriptedEnv (\<lambda>k. TtsResponds (Some ''mp3'')) (FfmpegError ''boom'' (Some ''half'')))
          ''T'' twoParagraphs emptyWorld)
     = Inl (Error ''FFmpeg concatenation failed: boom'') \<and>
   ''./audio/.concat-list.txt'' \<notin> dom (files
     (snd (generateChapterAudioWithChunking
             (scriptedEnv (\<lambda>k. TtsResponds (Some ''mp3'')) (FfmpegError ''boom'' (Some ''half'')))
             ''T'' twoParagraphs emptyWorld))) \<and>
   ''./audio/t-part1.mp3'' \<in> dom (files
     (snd (generateChapterAudioWithChunking
             (scriptedEnv (\<lambda>k. TtsResponds (Some ''mp3'')) (FfmpegError ''boom'' (Some ''half'')))
             ''T'' twoParagraphs emptyWorld))) \<and>
   ''./audio/t-part2.mp3'' \<in> dom (files
     (snd (generateChapterAudioWithChunking
             (scriptedEnv (\<lambda>k. TtsResponds (Some ''mp3'')) (FfmpegError ''boom'' (Some ''half'')))
             ''T'' twoParagraphs emptyWorld))) \<and>
   ''./audio/t.mp3'' \<in> dom (files
     (snd (generateChapterAudioWithChunking
             (scriptedEnv (\<lambda>k. TtsResponds (Some ''mp3'')) (FfmpegError ''boom'' (Some ''half'')))
             ''T'' twoParagraphs emptyWorld)))"
proof -
  let ?env = "scriptedEnv (\<lambda>k. TtsResponds (Some ''mp3'')) (FfmpegError ''boom'' (Some ''half''))"
  let ?w' = "snd (generateChapterAudioWithChunking ?env ''T'' twoParagraphs emptyWorld)"
  have failed: "fst (generateChapterAudioWithChunking ?env ''T'' twoParagraphs emptyWorld)
     = Inl (Error (''FFmpeg concatenation failed: '' @ ''boom''))"
    by (rule build_merge_error(1) [OF scripted_over])
       (simp_all add: splitTextIntoChunks_twoParagraphs scripted_response scripted_ffmpeg)
  have "dom (files ?w') = (dom (files emptyWorld)
            \<union> partFilePath ?env (createCleanFileName ''T'') `
                {0..<length (splitTextIntoChunks (cleanContentForTTS ?env ''T'' twoParagraphs))}
            \<union> (case Some ''half'' of None \<Rightarrow> {}
                | Some c \<Rightarrow> {finalFilePath ?env (createCleanFileName ''T'')}))
            - {concatListPath ?env}"
    by (rule build_merge_error(2) [OF scripted_over])
       (simp_all add: splitTextIntoChunks_twoParagraphs scripted_response scripted_ffmpeg)
  moreover have "{0..<length (splitTextIntoChunks (cleanContentForTTS ?env ''T'' twoParagraphs))}
                   = {0, Suc 0}"
    by (auto simp: splitTextIntoChunks_twoParagraphs)
  ultimately have files: "dom (files ?w') =
      {''./audio/t-part1.mp3'', ''./audio/t-part2.mp3'', ''./audio/t.mp3''}
        - {''./audio/.concat-list.txt''}"
    by (simp add: createCleanFileName_T scripted_paths emptyWorld_def Un_commute insert_commute)
  from failed_build_keeps_part_files [OF scripted_over failed] failed show ?thesis
    unfolding files by (simp add: length_twoParagraphs MAX_CHARS_PER_REQUEST_def)
qed

text \<open>
  The claim as stated fails: the request for the second segment is rejected, the build
  fails, and the part file of the first segment stays.
\<close>

theorem failed_synthesis_leaves_part_file:
  "fst (generateChapterAudioWithChunking (scriptedEnv (quotaAt 1) (FfmpegEnd ''merged''))
          ''T'' twoParagraphs emptyWorld)
     = Inl (Error ''TTS generation failed: quota exceeded'') \<and>
   ''./audio/t-part1.mp3'' \<in> dom (files
     (snd (generateChapterAudioWithChunking (scriptedEnv (quotaAt 1) (FfmpegEnd ''merged''))
             ''T'' twoParagraphs emptyWorld)))"
proof -
  let ?env = "scriptedEnv (quotaAt 1) (FfmpegEnd ''merged'')"
  note f = build_first_failure [OF scripted_over, of 1 "quotaAt 1" "FfmpegEnd ''merged''" "''T''" emptyWorld]
  have "fst (generateChapterAudioWithChunking ?env ''T'' twoParagraphs emptyWorld)
     = Inl (Error (''TTS generation failed: '' @ ttsFailure (quotaAt 1 1)))"
    using f(1) by (simp add: splitTextIntoChunks_twoParagraphs scripted_response quotaAt_def)
  moreover have "dom (files (snd (generateChapterAudioWithChunking ?env ''T'' twoParagraphs emptyWorld)))
     = dom (files emptyWorld) \<union> partFilePath ?env (createCleanFileName ''T'') ` {0..<1}"
    using f(3) by (simp add: splitTextIntoChunks_twoParagraphs scripted_response quotaAt_def)
  ultimately show ?thesis
    by (simp add: quotaAt_def createCleanFileName_T scripted_paths)
qed

text \<open>
  C5: after a successful build of a text of more than 4500 characters, no part file
  passed to the concatenation is left, the concat list is gone, the result names the
  output path and the file there exists; the concatenation was called once, with the
  part files of all segments in order; and of all the files written during the build
  the one at the output path is the only one left.
\<close>

theorem successful_build_leaves_one_file:
  fixes env title content w
  defines "n \<equiv> createCleanFileName title"
    and "chunks \<equiv> splitTextIntoChunks (cleanContentForTTS env title content)"
    and "w' \<equiv> snd (generateChapterAudioWithChunking env title content w)"
  assumes over: "MAX_CHARS_PER_REQUEST < length (cleanContentForTTS env title content)"
    and returned: "fst (generateChapterAudioWithChunking env title content w) = Inr audio"
  shows "(\<forall>i<length chunks. partFilePath env n i \<notin> dom (files w')) \<and>
         concatListPath env \<notin> dom (files w') \<and>
         filePath audio = finalFilePath env n \<and>
         finalFilePath env n \<in> dom (files w') \<and>
         concatenations (eventsSince w w') =
           [(map (partFilePath env n) [0..<length chunks], finalFilePath env n)] \<and>
         set (written (eventsSince w w')) \<inter> dom (files w') = {finalFilePath env n}"
proof -
  obtain r where build: "generateChapterAudioWithChunking env title content w = (r, w')"
    unfolding w'_def by (cases "generateChapterAudioWithChunking env title content w") simp
  with returned have r: "r = Inr audio" by simp
  from over build show ?thesis
  proof (cases rule: chunked_build_cases)
    case (synthesisFailed m)
    with r show ?thesis by simp
  next
    case (mergeFailed msg partial fs)
    with r show ?thesis by simp
  next
    case (succeeded merged us fs)
    note ev = eventsSince_append [OF succeeded(4)]
    have "filePath audio = finalFilePath env n"
      using succeeded(3) r by (auto simp: n_def)
    moreover have "\<forall>i<length chunks. partFilePath env n i \<notin> dom (files w')"
      using succeeded(6) by (simp add: n_def chunks_def)
    moreover have "concatListPath env \<notin> dom (files w')"
      using succeeded(6) by simp
    moreover have "finalFilePath env n \<in> dom (files w')"
      using succeeded(5) by (auto simp: n_def)
    moreover have "concatenations (eventsSince w w') =
           [(map (partFilePath env n) [0..<length chunks], finalFilePath env n)]"
      unfolding ev by (simp add: concatenations_partEvents n_def chunks_def)
    moreover have "set (written (eventsSince w w')) \<inter> dom (files w') = {finalFilePath env n}"
      unfolding ev
      using succeeded(5,6) finalFilePath_not_part [of env n] finalFilePath_not_concatList [of env n]
      by (auto simp: written_partEvents n_def)
    ultimately show ?thesis by blast
  qed
qed

theorem successful_build_leaves_one_file_witness:
  "MAX_CHARS_PER_REQUEST < length twoParagraphs \<and>
   fst (generateChapterAudioWithChunking
          (scriptedEnv (\<lambda>k. TtsResponds (Some ''mp3'')) (FfmpegEnd ''merged''))
          ''T'' twoParagraphs emptyWorld)
     = Inr \<lparr>filePath = ''./audio/t.mp3'', fileName = ''t.mp3'', fileSize = 6\<rparr> \<and>
   ''./audio/t-part1.mp3'' \<notin> dom (files
     (snd (generateChapterAudioWithChunking
             (scriptedEnv (\<lambda>k. TtsResponds (Some ''mp3'')) (FfmpegEnd ''merged''))
             ''T'' twoParagraphs emptyWorld))) \<and>
   ''./audio/t-part2.mp3'' \<notin> dom (files
     (snd (generateChapterAudioWithChunking
             (scriptedEnv (\<lambda>k. TtsResponds (Some ''mp3'')) (FfmpegEnd ''merged''))
             ''T'' twoParagraphs emptyWorld))) \<and>
   ''./audio/.concat-list.txt'' \<notin> dom (files
     (snd (generateChapterAudioWithChunking
             (scriptedEnv (\<lambda>k. TtsResponds (Some ''mp3'')) (FfmpegEnd ''merged''))
             ''T'' twoParagraphs emptyWorld))) \<and>
   ''./audio/t.mp3'' \<in> dom (files
     (snd (generateChapterAudioWithChunking
             (scriptedEnv (\<lambda>k. TtsResponds (Some ''mp3'')) (FfmpegEnd ''merged''))
             ''T'' twoParagraphs emptyWorld)))"
proof -
  let ?env = "scriptedEnv (\<lambda>k. TtsResponds (Some ''mp3'')) (FfmpegEnd ''merged'')"
  let ?w' = "snd (generateChapterAudioWithChunking ?env ''T'' twoParagraphs emptyWorld)"
  have returned: "fst (generateChapterAudioWithChunking ?env ''T'' twoParagraphs emptyWorld)
     = Inr \<lparr>filePath = finalFilePath ?env (createCleanFileName ''T''),
            fileName = createCleanFileName ''T'' @ ''.mp3'', fileSize = length ''merged''\<rparr>"
    by (rule build_success [OF scripted_over])
       (simp_all add: splitTextIntoChunks_twoParagraphs scripted_response scripted_ffmpeg)
  note kept = successful_build_leaves_one_file [OF scripted_over returned]
  have two: "length (splitTextIntoChunks (cleanContentForTTS ?env ''T'' twoParagraphs)) = 2"
    by (simp add: splitTextIntoChunks_twoParagraphs)
  from kept have "partFilePath ?env (createCleanFileName ''T'') 0 \<notin> dom (files ?w')"
    and "partFilePath ?env (createCleanFileName ''T'') (Suc 0) \<notin> dom (files ?w')"
    and "concatListPath ?env \<notin> dom (files ?w')"
    and "finalFilePath ?env (createCleanFileName ''T'') \<in> dom (files ?w')"
    unfolding two by simp_all
  with returned show ?thesis
    by (simp add: createCleanFileName_T scripted_paths length_twoParagraphs
          MAX_CHARS_PER_REQUEST_def)
qed

end
